theory Spec2Isabelle
  imports Complex_Main "HOL-Library.Sublist" "HOL-Library.Log_Nat"
begin

section \<open>Strings\<close>

text \<open>
  Strings are lists of characters: the bytes of the UTF-8 form of the source's strings.
  The three string operations of the source are \<^verbatim>\<open>toLowerCase\<close>, \<^verbatim>\<open>endsWith\<close>
  and \<^verbatim>\<open>includes\<close>. Lower-casing changes the letters \<^verbatim>\<open>A\<close> to \<^verbatim>\<open>Z\<close> and
  leaves every other byte as it is; the suffixes that the source tests on a lower-cased
  string are ASCII.
\<close>

definition lowerChar :: "char \<Rightarrow> char" where
  "lowerChar c =
     (let n = (of_char c :: nat) in if 65 \<le> n \<and> n \<le> 90 then char_of (n + 32) else c)"

definition toLowerCase :: "string \<Rightarrow> string" where
  "toLowerCase s = map lowerChar s"

definition endsWith :: "string \<Rightarrow> string \<Rightarrow> bool" where
  "endsWith s t = suffix t s"

definition includesStr :: "string \<Rightarrow> string \<Rightarrow> bool" where
  "includesStr s t = sublist t s"

section \<open>Type detector\<close>

text \<open>
  \<^verbatim>\<open>deriveImageTypeFromPath\<close> (index.ts, lines 35 to 53): a chain of conditional
  expressions over the lower-cased path, tested in the order of the source.
\<close>

definition deriveImageTypeFromPath :: "string \<Rightarrow> string" where
  "deriveImageTypeFromPath path =
     (let lPath = toLowerCase path in
      if endsWith lPath ''.jpeg'' \<or> endsWith lPath ''.jpg'' then ''jpg''
      else if endsWith lPath ''.gif'' then ''gif''
      else if endsWith lPath ''.png'' then ''png''
      else if endsWith lPath ''.heic'' then ''heic''
      else if endsWith lPath ''.tiff'' then ''tiff''
      else if endsWith lPath ''.webp'' then ''webp''
      else ''unknown'')"

section \<open>Numbers\<close>

text \<open>
  The numbers of the source are IEEE doubles. Byte lengths, pixel widths, the budgets, the
  quality, the cache time and status codes are whole numbers; the model holds them as
  integers and is about those of magnitude below \<open>2 ^ 53\<close>, each of which is a double.
  A quotient or a product is rounded to the nearest double, a tie to the even
  significand. The exponent range of doubles is not modelled: quotients and products of
  whole numbers below \<open>2 ^ 53\<close>, with factors at most 1, stay far inside it.
\<close>

definition roundHalfEven :: "rat \<Rightarrow> int" where
  "roundHalfEven x =
     (let f = \<lfloor>x\<rfloor>; d = x - of_int f in
      if d < 1 / 2 then f else if 1 / 2 < d then f + 1 else if even f then f else f + 1)"

text \<open>The exponent \<open>e\<close> with \<open>2 ^ e \<le> \<bar>x\<bar> < 2 ^ (e + 1)\<close>, for \<open>x\<close> other than 0.\<close>

definition binaryExponent :: "rat \<Rightarrow> int" where
  "binaryExponent x =
     (let (p, q) = quotient_of \<bar>x\<bar>;
          k = bitlen p - bitlen q
      in if 2 powi k \<le> \<bar>x\<bar> then k else k - 1)"

text \<open>The nearest number with a significand of 53 bits.\<close>

definition toDouble :: "rat \<Rightarrow> rat" where
  "toDouble x =
     (if x = 0 then 0
      else let e = binaryExponent x - 52
           in of_int (roundHalfEven (x / 2 powi e)) * 2 powi e)"

text \<open>
  A number is a finite double, an infinity or \<^verbatim>\<open>NaN\<close>. Division of whole numbers,
  \<^verbatim>\<open>Math.min\<close>, multiplication and \<^verbatim>\<open>Math.round\<close> are those of the language:
  a division by zero gives an infinity or \<^verbatim>\<open>NaN\<close>, \<^verbatim>\<open>NaN\<close> spreads, and
  \<^verbatim>\<open>Math.round\<close> takes the nearest whole number, a half upwards, of the double it is
  given.
\<close>

datatype number = Finite rat | PosInfinity | NegInfinity | NaN

definition js_divide :: "int \<Rightarrow> int \<Rightarrow> number" where
  "js_divide a b =
     (if b = 0 then (if a = 0 then NaN else if 0 < a then PosInfinity else NegInfinity)
      else Finite (toDouble (of_int a / of_int b)))"

fun Math_min :: "number \<Rightarrow> number \<Rightarrow> number" where
  "Math_min NaN y = NaN"
| "Math_min x NaN = NaN"
| "Math_min NegInfinity y = NegInfinity"
| "Math_min x NegInfinity = NegInfinity"
| "Math_min PosInfinity y = y"
| "Math_min x PosInfinity = x"
| "Math_min (Finite a) (Finite b) = Finite (min a b)"

fun js_times :: "number \<Rightarrow> number \<Rightarrow> number" where
  "js_times (Finite a) (Finite b) = Finite (toDouble (a * b))"
| "js_times NaN y = NaN"
| "js_times x NaN = NaN"
| "js_times (Finite a) PosInfinity =
     (if a = 0 then NaN else if 0 < a then PosInfinity else NegInfinity)"
| "js_times (Finite a) NegInfinity =
     (if a = 0 then NaN else if 0 < a then NegInfinity else PosInfinity)"
| "js_times PosInfinity (Finite b) =
     (if b = 0 then NaN else if 0 < b then PosInfinity else NegInfinity)"
| "js_times NegInfinity (Finite b) =
     (if b = 0 then NaN else if 0 < b then NegInfinity else PosInfinity)"
| "js_times PosInfinity PosInfinity = PosInfinity"
| "js_times PosInfinity NegInfinity = NegInfinity"
| "js_times NegInfinity PosInfinity = NegInfinity"
| "js_times NegInfinity NegInfinity = PosInfinity"

fun Math_round :: "number \<Rightarrow> number" where
  "Math_round (Finite x) = Finite (of_int \<lfloor>x + 1 / 2\<rfloor>)"
| "Math_round x = x"

text \<open>
  String conversion of a whole number, as string concatenation does it. Below
  \<open>2 ^ 53\<close> the string is the decimal digits of the number. The string form of
  larger numbers (digits that are rounded, the exponent form from \<open>10 ^ 21\<close> on) is not
  spelled out.
\<close>

fun digitsOf :: "nat \<Rightarrow> string" where
  "digitsOf n =
     (if n < 10 then [char_of (48 + n)] else digitsOf (n div 10) @ [char_of (48 + n mod 10)])"

definition Number_toString :: "int \<Rightarrow> string option" where
  "Number_toString i =
     (if 2 ^ 53 \<le> \<bar>i\<bar> then None
      else if i < 0 then Some (''-'' @ digitsOf (nat (- i)))
      else Some (digitsOf (nat i)))"

section \<open>Bytes and the fallback asset\<close>

text \<open>
  A buffer is a list of bytes, a byte a natural number below 256.
  \<^verbatim>\<open>Buffer.from(s, "base64")\<close> reads the characters of the base64 alphabet up to the
  first padding character, six bits each, and packs them into bytes; bits left over at
  the end that do not fill a byte are dropped.
\<close>

type_synonym bytes = "nat list"

definition base64Value :: "char \<Rightarrow> nat option" where
  "base64Value c =
     (let n = (of_char c :: nat) in
      if 65 \<le> n \<and> n \<le> 90 then Some (n - 65)
      else if 97 \<le> n \<and> n \<le> 122 then Some (n - 71)
      else if 48 \<le> n \<and> n \<le> 57 then Some (n + 4)
      else if c = CHR ''+'' \<or> c = CHR ''-'' then Some 62
      else if c = CHR ''/'' \<or> c = CHR ''_'' then Some 63
      else None)"

fun packSextets :: "nat list \<Rightarrow> bytes" where
  "packSextets (a # b # c # d # rest) =
     [a * 4 + b div 16, (b mod 16) * 16 + c div 4, (c mod 4) * 64 + d] @ packSextets rest"
| "packSextets [a, b, c] = [a * 4 + b div 16, (b mod 16) * 16 + c div 4]"
| "packSextets [a, b] = [a * 4 + b div 16]"
| "packSextets _ = []"

definition Buffer_from_base64 :: "string \<Rightarrow> bytes" where
  "Buffer_from_base64 s =
     packSextets (List.map_filter base64Value (takeWhile (\<lambda>c. c \<noteq> CHR ''='') s))"

definition TRANSPARENT_IMAGE_GIF_BYTES :: bytes where
  "TRANSPARENT_IMAGE_GIF_BYTES =
     Buffer_from_base64 ''R0lGODlhAQABAIAAAAAAAAAAACH5BAEAAAAALAAAAAABAAEAAAICRAEAOw=''"

section \<open>Errors\<close>

text \<open>
  A thrown value is an error object with a name and a message. \<^verbatim>\<open>new Error(m)\<close>
  has the name \<^verbatim>\<open>Error\<close>. The string form \<^verbatim>\<open>e + ""\<close> is the name, a colon and
  the message; an empty name or an empty message is left out together with the colon.
\<close>

datatype js_error = JsError (errName: string) (errMessage: string)

definition Error :: "string \<Rightarrow> js_error" where
  "Error m = JsError ''Error'' m"

definition errorToString :: "js_error \<Rightarrow> string" where
  "errorToString e =
     (if errName e = [] then errMessage e
      else if errMessage e = [] then errName e
      else errName e @ '': '' @ errMessage e)"

text \<open>The result of awaiting a call: a value, or a thrown error.\<close>

datatype 'a outcome = Returns 'a | Throws js_error

section \<open>\<^verbatim>\<open>JSON.stringify\<close> of the diagnostic object\<close>

definition hexDigit :: "nat \<Rightarrow> char" where
  "hexDigit n = (if n < 10 then char_of (48 + n) else char_of (87 + n))"

definition JSON_escape :: "char \<Rightarrow> string" where
  "JSON_escape c =
     (let n = (of_char c :: nat) in
      if n = 34 then [CHR 0x5C, CHR 0x22]
      else if n = 92 then [CHR 0x5C, CHR 0x5C]
      else if n = 8 then [CHR 0x5C, CHR ''b'']
      else if n = 12 then [CHR 0x5C, CHR ''f'']
      else if n = 10 then [CHR 0x5C, CHR ''n'']
      else if n = 13 then [CHR 0x5C, CHR ''r'']
      else if n = 9 then [CHR 0x5C, CHR ''t'']
      else if n < 32 then [CHR 0x5C] @ ''u00'' @ [hexDigit (n div 16), hexDigit (n mod 16)]
      else [c])"

definition JSON_quote :: "string \<Rightarrow> string" where
  "JSON_quote s = [CHR 0x22] @ concat (map JSON_escape s) @ [CHR 0x22]"

text \<open>\<^verbatim>\<open>JSON.stringify({ bucket, path })\<close>\<close>

definition JSON_stringify_info :: "string \<Rightarrow> string \<Rightarrow> string" where
  "JSON_stringify_info b p =
     ''{'' @ JSON_quote ''bucket'' @ '':'' @ JSON_quote b @ '',''
       @ JSON_quote ''path'' @ '':'' @ JSON_quote p @ ''}''"

section \<open>Data model\<close>

record SupabaseImageData =
  bucket :: string
  path :: string

text \<open>
  \<^verbatim>\<open>ImageLoaderOptions\<close>: the three mandatory numbers and the three optional
  fields, \<^const>\<open>None\<close> when the field is left out.
\<close>

record ImageLoaderOptions =
  maxSizeBytes :: int
  maxSizeWidth :: int
  quality :: int
  progressive :: "bool option"
  standardCacheTime :: "int option"
  sharpen :: "bool option"

text \<open>
  The options of \<^verbatim>\<open>loadImageSafely\<close> extend them by the error callback and the
  fallback flag. The callback is code of the caller: called with the error, it returns
  (\<^const>\<open>None\<close>) or throws (\<^const>\<open>Some\<close> of what it throws). Its calls are recorded in
  the world below.
\<close>

record LoadImageSafelyOptions = ImageLoaderOptions +
  onError :: "(js_error \<Rightarrow> js_error option) option"
  useTransparentImageFallback :: "bool option"

definition truthy :: "bool option \<Rightarrow> bool" where
  "truthy b = (b = Some True)"

definition oneKbInBytes :: int where
  "oneKbInBytes = 1024"

definition hundredKbs :: int where
  "hundredKbs = 100 * oneKbInBytes"

definition STANDARD_CACHE_TIME :: int where
  "STANDARD_CACHE_TIME = 60 * 60 * 24 * 5"

definition THUMBNAIL_IMAGE_LOADER_OPTIONS :: ImageLoaderOptions where
  "THUMBNAIL_IMAGE_LOADER_OPTIONS =
     \<lparr>maxSizeBytes = hundredKbs * 2, maxSizeWidth = 120, quality = 60,
      progressive = Some True, standardCacheTime = Some STANDARD_CACHE_TIME,
      sharpen = None\<rparr>"

definition FULL_IMAGE_LOADER_OPTIONS :: ImageLoaderOptions where
  "FULL_IMAGE_LOADER_OPTIONS =
     \<lparr>maxSizeBytes = hundredKbs * 10, maxSizeWidth = 2500, quality = 94,
      progressive = Some True, standardCacheTime = Some STANDARD_CACHE_TIME,
      sharpen = None\<rparr>"

section \<open>Collaborators\<close>

text \<open>
  The storage client answers a download with a pair of data and error, or throws. The
  image library reads the metadata of a buffer (or throws), takes the operations requested
  on an image one by one, rejecting an operation by throwing, and, once piped, emits the
  encoded bytes as a sequence of stream events. What the client answers, what the
  metadata are, which operations the library rejects and which events the encoder emits
  are parameters of the model.
\<close>

record download_result =
  dl_data :: "bytes option"
  dl_error :: "string option"

type_synonym SupabaseClient = "string \<Rightarrow> string \<Rightarrow> download_result outcome"

record image_meta =
  width :: "nat option"

datatype sharp_op = Rotate | Resize number | Sharpen rat | Jpeg int "bool option"

record sharp_image =
  input :: bytes
  ops :: "sharp_op list"

datatype stream_event = Data bytes | EndEvent | ErrorEvent js_error

record sharp_lib =
  metadata :: "bytes \<Rightarrow> image_meta outcome"
  rejects :: "sharp_op \<Rightarrow> js_error option"
  emits :: "sharp_image \<Rightarrow> stream_event list"

text \<open>One call on an image: the library throws, or the operation joins the others.\<close>

definition call :: "sharp_lib \<Rightarrow> sharp_op \<Rightarrow> sharp_image \<Rightarrow> js_error + sharp_image" where
  "call sharp operation img =
     (case rejects sharp operation of
        Some e \<Rightarrow> Inl e
      | None \<Rightarrow> Inr (img\<lparr>ops := ops img @ [operation]\<rparr>))"

text \<open>A statement after one that may have thrown.\<close>

definition andThen :: "js_error + 'a \<Rightarrow> ('a \<Rightarrow> js_error + 'b) \<Rightarrow> js_error + 'b" where
  "andThen r f = (case r of Inl e \<Rightarrow> Inl e | Inr x \<Rightarrow> f x)"

text \<open>
  The pixel width that a sequence of operations leaves, as far as the sequence determines
  it: a resize to a whole number sets it, sharpening and encoding keep it, and a rotation
  by the embedded orientation may exchange the two sides, so the width after it is not
  known from the calls alone.
\<close>

fun widthAfter :: "int option \<Rightarrow> sharp_op \<Rightarrow> int option" where
  "widthAfter w Rotate = None"
| "widthAfter w (Resize n) =
     (case n of Finite x \<Rightarrow> if x = of_int \<lfloor>x\<rfloor> then Some \<lfloor>x\<rfloor> else None | _ \<Rightarrow> None)"
| "widthAfter w (Sharpen s) = w"
| "widthAfter w (Jpeg q p) = w"

definition outputWidth :: "nat \<Rightarrow> sharp_op list \<Rightarrow> int option" where
  "outputWidth w os = foldl widthAfter (Some (int w)) os"

section \<open>The world: calls on the collaborators\<close>

text \<open>
  A header value is a string or a number. \<open>HStrNumber s i\<close> is the string \<open>s\<close>
  followed by the string form of a number \<open>i\<close> whose string form is not spelled out.
\<close>

datatype header_value = HStr string | HNum int | HStrNumber string int

text \<open>A string followed by an optional number: a missing one reads \<^verbatim>\<open>undefined\<close>.\<close>

definition stringPlusNumber :: "string \<Rightarrow> int option \<Rightarrow> header_value" where
  "stringPlusNumber s v =
     (case v of
        None \<Rightarrow> HStr (s @ ''undefined'')
      | Some i \<Rightarrow> (case Number_toString i of
                    Some t \<Rightarrow> HStr (s @ t)
                  | None \<Rightarrow> HStrNumber s i))"

datatype res_call =
    WriteHead int "(string \<times> header_value) list"
  | Status int
  | Send string
  | EndWith bytes string
  | PipeWrite bytes
  | PipeEnd

text \<open>
  \<open>downloads\<close> lists the download calls issued, \<open>apiRes\<close> the calls on the HTTP
  response, \<open>reported\<close> the errors handed to the callback, \<open>uncaught\<close> the errors
  that no handler of the request received.
\<close>

record world =
  downloads :: "(string \<times> string) list"
  apiRes :: "res_call list"
  reported :: "js_error list"
  uncaught :: "js_error list"


text \<open>A promise is fulfilled, rejected, or never settled.\<close>

datatype 'a promise = Fulfilled 'a | Rejected js_error | Pending

section \<open>Fetcher\<close>

text \<open>\<^verbatim>\<open>loadImageFromSupabase\<close> (index.ts, lines 10 to 33).\<close>

definition loadImageFromSupabase ::
    "SupabaseClient \<Rightarrow> string \<Rightarrow> string \<Rightarrow> world \<Rightarrow> (js_error + bytes) \<times> world" where
  "loadImageFromSupabase serverClient b p w =
     (let w' = w\<lparr>downloads := downloads w @ [(b, p)]\<rparr> in
      case serverClient b p of
        Throws e \<Rightarrow> (Inl e, w')
      | Returns r \<Rightarrow>
          (let errInfo = JSON_stringify_info b p in
           if dl_error r \<noteq> None then (Inl (Error (''Image not found > '' @ errInfo)), w')
           else case dl_data r of
             None \<Rightarrow> (Inl (Error (''Blob was not retrieved > '' @ errInfo)), w')
           | Some blob \<Rightarrow> (Inr blob, w')))"

section \<open>Transcoder\<close>

text \<open>
  The width handed to \<^verbatim>\<open>resize\<close> (index.ts, lines 124 to 139): the two ratios, each
  capped at 1, the smaller of them, and the rounded product with the width.
\<close>

definition downscaledWidth :: "int \<Rightarrow> int \<Rightarrow> nat \<Rightarrow> nat \<Rightarrow> number" where
  "downscaledWidth maxBytes maxWidth byteLength w =
     (let downscaleFactorBytesEstimated =
            Math_min (Finite 1) (js_divide maxBytes (int byteLength));
          downScaleFactorWidthEstimated =
            Math_min (Finite 1) (js_divide maxWidth (int w));
          factor = Math_min downScaleFactorWidthEstimated downscaleFactorBytesEstimated
      in Math_round (js_times (Finite (of_nat w)) factor))"

text \<open>\<^verbatim>\<open>getStreamableImage\<close> (index.ts, lines 90 to 154).\<close>

definition getStreamableImage ::
    "sharp_lib \<Rightarrow> SupabaseClient \<Rightarrow> SupabaseImageData \<Rightarrow> 'a ImageLoaderOptions_scheme \<Rightarrow> world
       \<Rightarrow> (js_error + sharp_image) \<times> world" where
  "getStreamableImage sharp supabaseClient imageData options w =
     (let imageType = deriveImageTypeFromPath (path imageData) in
      if imageType = ''unknown''
      then (Inl (Error (''Unknown image type: '' @ path imageData)), w)
      else
        case loadImageFromSupabase supabaseClient (bucket imageData) (path imageData) w of
          (Inl e, w') \<Rightarrow> (Inl e, w')
        | (Inr buffer, w') \<Rightarrow>
            (case metadata sharp buffer of
               Throws e \<Rightarrow> (Inl e, w')
             | Returns imageMeta \<Rightarrow>
                 (case width imageMeta of
                    None \<Rightarrow> (Inl (Error ''Not possible to retrieve image width''), w')
                  | Some wd \<Rightarrow>
                      if wd = 0
                      then (Inl (Error ''Not possible to retrieve image width''), w')
                      else
                        (let streamable = Inr \<lparr>input = buffer, ops = []\<rparr>;
                             streamable =
                               (if int (length buffer) > maxSizeBytes options
                                   \<or> int wd > maxSizeWidth options
                                then
                                  andThen (andThen streamable (call sharp Rotate))
                                    (call sharp
                                       (Resize (downscaledWidth (maxSizeBytes options)
                                                  (maxSizeWidth options) (length buffer) wd)))
                                else streamable);
                             streamable =
                               (if truthy (sharpen options)
                                then andThen streamable (call sharp (Sharpen (9 / 10)))
                                else streamable);
                             streamable =
                               andThen streamable
                                 (call sharp (Jpeg (quality options) (progressive options)))
                         in (streamable, w')))))"

section \<open>Responder\<close>

text \<open>
  Piping the encoder's stream into the response writes every chunk and, at the end
  event, ends the response; the promise of the streaming phase is given the resolver
  only, which the end event calls. An error event finds no listener: it reaches no
  handler of the request, and the promise stays unsettled, as it does when the events
  stop without an end event.
\<close>

fun pipeInto :: "stream_event list \<Rightarrow> world \<Rightarrow> unit promise \<times> world" where
  "pipeInto [] w = (Pending, w)"
| "pipeInto (Data chunk # evs) w = pipeInto evs (w\<lparr>apiRes := apiRes w @ [PipeWrite chunk]\<rparr>)"
| "pipeInto (EndEvent # evs) w = (Fulfilled (), w\<lparr>apiRes := apiRes w @ [PipeEnd]\<rparr>)"
| "pipeInto (ErrorEvent e # evs) w = (Pending, w\<lparr>uncaught := uncaught w @ [e]\<rparr>)"

text \<open>The \<^verbatim>\<open>try\<close> block of \<^verbatim>\<open>loadImageSafely\<close> (index.ts, lines 167 to 189).\<close>

definition loadImageSafely_try ::
    "sharp_lib \<Rightarrow> SupabaseClient \<Rightarrow> SupabaseImageData \<Rightarrow> LoadImageSafelyOptions \<Rightarrow> world
       \<Rightarrow> unit promise \<times> world" where
  "loadImageSafely_try sharp supabaseClient imageData options w =
     (if bucket imageData = [] \<or> path imageData = []
      then (Rejected (Error ''Invalid image data''), w)
      else
        case getStreamableImage sharp supabaseClient imageData options w of
          (Inl e, w') \<Rightarrow> (Rejected e, w')
        | (Inr streamable, w') \<Rightarrow>
            pipeInto (emits sharp streamable)
              (w'\<lparr>apiRes := apiRes w' @
                 [WriteHead 200
                    [(''Content-Type'', HStr ''image/jpg''),
                     (''Cache-control'',
                        stringPlusNumber ''max-age='' (standardCacheTime options))]]\<rparr>))"

text \<open>
  The \<^verbatim>\<open>catch\<close> block (index.ts, lines 190 to 213). The callback is called first and
  without a guard: if it throws, the block is left with what it threw, the promise of the
  call is rejected, and nothing is written.
\<close>

definition loadImageSafely_catch ::
    "LoadImageSafelyOptions \<Rightarrow> js_error \<Rightarrow> world \<Rightarrow> unit promise \<times> world" where
  "loadImageSafely_catch options e w =
     (let w1 = (case onError options of
                  None \<Rightarrow> w
                | Some callback \<Rightarrow> w\<lparr>reported := reported w @ [e]\<rparr>);
          thrown = (case onError options of None \<Rightarrow> None | Some callback \<Rightarrow> callback e)
      in case thrown of
           Some e' \<Rightarrow> (Rejected e', w1)
         | None \<Rightarrow>
             (let errStr = errorToString e @ [];
                  errCode = (500 :: int);
                  errMessage = ''Internal server error'';
                  (errCode, errMessage) =
                    (if includesStr errStr ''Image not found''
                     then (404, ''Image not found'')
                     else (errCode, errMessage))
              in if truthy (useTransparentImageFallback options)
                 then (Fulfilled (),
                       w1\<lparr>apiRes := apiRes w1 @
                         [WriteHead errCode
                            [(''Content-Type'', HStr ''image/gif''),
                             (''Content-Length'',
                                HNum (int (length TRANSPARENT_IMAGE_GIF_BYTES))),
                             (''Cache-control'', HStr ''no-cache'')],
                          EndWith TRANSPARENT_IMAGE_GIF_BYTES ''binary'']\<rparr>)
                 else (Fulfilled (),
                       w1\<lparr>apiRes := apiRes w1 @ [Status errCode, Send errMessage]\<rparr>)))"

text \<open>
  \<^verbatim>\<open>loadImageSafely\<close> (index.ts, lines 156 to 214): a rejection inside the
  \<^verbatim>\<open>try\<close> block runs the \<^verbatim>\<open>catch\<close> block.
\<close>

definition loadImageSafely ::
    "sharp_lib \<Rightarrow> SupabaseClient \<Rightarrow> SupabaseImageData \<Rightarrow> LoadImageSafelyOptions \<Rightarrow> world
       \<Rightarrow> unit promise \<times> world" where
  "loadImageSafely sharp supabaseClient imageData options w =
     (case loadImageSafely_try sharp supabaseClient imageData options w of
        (Rejected e, w') \<Rightarrow> loadImageSafely_catch options e w'
      | (p, w') \<Rightarrow> (p, w'))"

section \<open>A request scenario\<close>

text \<open>
  A bucket \<^verbatim>\<open>imgs\<close> with five objects: \<^verbatim>\<open>photo.PNG\<close>, 500 KB at 3000 pixels
  width; \<^verbatim>\<open>icon.gif\<close>, 1000 bytes at 100 pixels; \<^verbatim>\<open>strip.png\<close>, 200 bytes at 45
  pixels; \<^verbatim>\<open>dot.webp\<close>, 2 bytes at 5 pixels; \<^verbatim>\<open>line.jpg\<close>, 3 bytes at 1 pixel.
  Every other download is answered with an error. The library rejects a resize to
  anything but a positive whole number and a quality outside 1 to 100, as the image
  library of the source does; the encoder emits one chunk and ends.
\<close>

definition scenarioPhoto :: bytes where
  "scenarioPhoto = replicate 512000 0"

definition scenarioIcon :: bytes where
  "scenarioIcon = replicate 1000 0"

definition scenarioStrip :: bytes where
  "scenarioStrip = replicate 200 0"

definition scenarioDot :: bytes where
  "scenarioDot = replicate 2 0"

definition scenarioLine :: bytes where
  "scenarioLine = replicate 3 0"

definition scenarioClient :: SupabaseClient where
  "scenarioClient b p =
     (if b = ''imgs'' \<and> p = ''photo.PNG''
      then Returns \<lparr>dl_data = Some scenarioPhoto, dl_error = None\<rparr>
      else if b = ''imgs'' \<and> p = ''icon.gif''
      then Returns \<lparr>dl_data = Some scenarioIcon, dl_error = None\<rparr>
      else if b = ''imgs'' \<and> p = ''strip.png''
      then Returns \<lparr>dl_data = Some scenarioStrip, dl_error = None\<rparr>
      else if b = ''imgs'' \<and> p = ''dot.webp''
      then Returns \<lparr>dl_data = Some scenarioDot, dl_error = None\<rparr>
      else if b = ''imgs'' \<and> p = ''line.jpg''
      then Returns \<lparr>dl_data = Some scenarioLine, dl_error = None\<rparr>
      else Returns \<lparr>dl_data = None, dl_error = Some ''Object not found''\<rparr>)"

definition numberText :: "number \<Rightarrow> string" where
  "numberText n =
     (case n of
        Finite x \<Rightarrow> (case Number_toString \<lfloor>x\<rfloor> of Some s \<Rightarrow> s | None \<Rightarrow> ''a large number'')
      | PosInfinity \<Rightarrow> ''Infinity''
      | NegInfinity \<Rightarrow> ''-Infinity''
      | NaN \<Rightarrow> ''NaN'')"

definition positiveWhole :: "number \<Rightarrow> bool" where
  "positiveWhole n = (case n of Finite x \<Rightarrow> 0 < x \<and> x = of_int \<lfloor>x\<rfloor> | _ \<Rightarrow> False)"

definition scenarioRejects :: "sharp_op \<Rightarrow> js_error option" where
  "scenarioRejects operation =
     (case operation of
        Rotate \<Rightarrow> None
      | Resize n \<Rightarrow>
          if positiveWhole n then None
          else Some (Error (''Expected positive integer for width but received ''
                             @ numberText n @ '' of type number''))
      | Sharpen s \<Rightarrow> None
      | Jpeg q p \<Rightarrow>
          if 1 \<le> q \<and> q \<le> 100 then None
          else Some (Error (''Expected integer between 1 and 100 for quality but received ''
                             @ numberText (Finite (of_int q)) @ '' of type number'')))"

definition scenarioMetadata :: "bytes \<Rightarrow> image_meta outcome" where
  "scenarioMetadata b =
     (if b = [] then Throws (Error ''Input Buffer is empty'')
      else if length b = 512000 then Returns \<lparr>width = Some 3000\<rparr>
      else if length b = 200 then Returns \<lparr>width = Some 45\<rparr>
      else if length b = 2 then Returns \<lparr>width = Some 5\<rparr>
      else if length b = 3 then Returns \<lparr>width = Some 1\<rparr>
      else Returns \<lparr>width = Some 100\<rparr>)"

definition scenarioEmits :: "sharp_image \<Rightarrow> stream_event list" where
  "scenarioEmits img = [Data [255, 216], EndEvent]"

definition scenarioSharp :: sharp_lib where
  "scenarioSharp =
     \<lparr>metadata = scenarioMetadata, rejects = scenarioRejects, emits = scenarioEmits\<rparr>"

definition freshWorld :: world where
  "freshWorld = \<lparr>downloads = [], apiRes = [], reported = [], uncaught = []\<rparr>"

definition photoRequest :: SupabaseImageData where
  "photoRequest = \<lparr>bucket = ''imgs'', path = ''photo.PNG''\<rparr>"

definition iconRequest :: SupabaseImageData where
  "iconRequest = \<lparr>bucket = ''imgs'', path = ''icon.gif''\<rparr>"

definition stripRequest :: SupabaseImageData where
  "stripRequest = \<lparr>bucket = ''imgs'', path = ''strip.png''\<rparr>"

definition dotRequest :: SupabaseImageData where
  "dotRequest = \<lparr>bucket = ''imgs'', path = ''dot.webp''\<rparr>"

definition lineRequest :: SupabaseImageData where
  "lineRequest = \<lparr>bucket = ''imgs'', path = ''line.jpg''\<rparr>"

definition missingRequest :: SupabaseImageData where
  "missingRequest = \<lparr>bucket = ''imgs'', path = ''gone.jpg''\<rparr>"

definition bmpRequest :: SupabaseImageData where
  "bmpRequest = \<lparr>bucket = ''imgs'', path = ''doc.bmp''\<rparr>"


text \<open>A callback that returns, and one that throws.\<close>

definition quietCallback :: "js_error \<Rightarrow> js_error option" where
  "quietCallback e = None"

definition throwingCallback :: "js_error \<Rightarrow> js_error option" where
  "throwingCallback e = Some (Error ''logger unavailable'')"

text \<open>The thumbnail preset with a callback, without and with the fallback flag.\<close>

definition thumbnailOptions :: LoadImageSafelyOptions where
  "thumbnailOptions =
     \<lparr>maxSizeBytes = hundredKbs * 2, maxSizeWidth = 120, quality = 60,
      progressive = Some True, standardCacheTime = Some STANDARD_CACHE_TIME,
      sharpen = None, onError = Some quietCallback, useTransparentImageFallback = None\<rparr>"

definition thumbnailFallbackOptions :: LoadImageSafelyOptions where
  "thumbnailFallbackOptions = thumbnailOptions\<lparr>useTransparentImageFallback := Some True\<rparr>"

definition throwingOptions :: LoadImageSafelyOptions where
  "throwingOptions = thumbnailOptions\<lparr>onError := Some throwingCallback\<rparr>"

text \<open>Options that leave out every optional field.\<close>

definition bareOptions :: LoadImageSafelyOptions where
  "bareOptions =
     \<lparr>maxSizeBytes = hundredKbs * 2, maxSizeWidth = 120, quality = 60,
      progressive = None, standardCacheTime = None,
      sharpen = None, onError = None, useTransparentImageFallback = None\<rparr>"

text \<open>Options with a budget of 140 bytes, and of one byte.\<close>

definition smallBudgetOptions :: LoadImageSafelyOptions where
  "smallBudgetOptions = bareOptions\<lparr>maxSizeBytes := 140\<rparr>"

definition oneByteOptions :: LoadImageSafelyOptions where
  "oneByteOptions = bareOptions\<lparr>maxSizeBytes := 1\<rparr>"

text \<open>An encoder that fails after the first chunk.\<close>

definition brokenEmits :: "sharp_image \<Rightarrow> stream_event list" where
  "brokenEmits img = [Data [255, 216], ErrorEvent (Error ''VipsJpeg: write error'')]"

definition brokenMetadata :: "bytes \<Rightarrow> image_meta outcome" where
  "brokenMetadata b = Returns \<lparr>width = Some 100\<rparr>"

definition brokenSharp :: sharp_lib where
  "brokenSharp =
     \<lparr>metadata = brokenMetadata, rejects = scenarioRejects, emits = brokenEmits\<rparr>"

section \<open>Notions of the specification\<close>

text \<open>
  The output width as the specification writes it, in exact arithmetic: the original
  width times the smaller of the two ratios, each ratio capped at 1, rounded to the
  nearest integer.
\<close>

definition specOutputWidth :: "nat \<Rightarrow> nat \<Rightarrow> int \<Rightarrow> int \<Rightarrow> int" where
  "specOutputWidth originalWidth originalByteLength maxBytes maxWidth =
     round ((of_nat originalWidth :: rat) *
       min (min 1 (of_int maxBytes / of_nat originalByteLength))
           (min 1 (of_int maxWidth / of_nat originalWidth)))"

text \<open>
  The error callback as the specification has it: an observer. Called with the error, it
  returns.
\<close>

definition callbackReturns :: "LoadImageSafelyOptions \<Rightarrow> js_error \<Rightarrow> bool" where
  "callbackReturns options e =
     (case onError options of None \<Rightarrow> True | Some callback \<Rightarrow> callback e = None)"

text \<open>The calls that stream an encoded image into the response.\<close>

definition streamCall :: "res_call \<Rightarrow> bool" where
  "streamCall c = (case c of PipeWrite b \<Rightarrow> True | PipeEnd \<Rightarrow> True | _ \<Rightarrow> False)"

section \<open>Properties of the type detector\<close>

lemma lowerChar_dot: "lowerChar c = CHR ''.'' \<longleftrightarrow> c = CHR ''.''"
proof
  assume h: "lowerChar c = CHR ''.''"
  show "c = CHR ''.''"
  proof (cases "65 \<le> (of_char c :: nat) \<and> (of_char c :: nat) \<le> 90")
    case True
    then have "lowerChar c = char_of ((of_char c :: nat) + 32)"
      by (simp add: lowerChar_def Let_def)
    with h have "(of_char (char_of ((of_char c :: nat) + 32)) :: nat) = of_char (CHR ''.'')"
      by simp
    with True show ?thesis by (simp add: of_char_of)
  next
    case False
    with h show ?thesis by (simp add: lowerChar_def Let_def)
  qed
next
  assume "c = CHR ''.''"
  then show "lowerChar c = CHR ''.''" by (simp add: lowerChar_def)
qed

lemma dot_in_toLowerCase: "CHR ''.'' \<in> set (toLowerCase s) \<longleftrightarrow> CHR ''.'' \<in> set s"
proof -
  have "\<And>x. (CHR ''.'' = lowerChar x) = (x = CHR ''.'')"
    using lowerChar_dot by metis
  then show ?thesis by (auto simp: toLowerCase_def image_iff)
qed

lemma endsWith_dot:
  assumes "endsWith s t" and "CHR ''.'' \<in> set t"
  shows "CHR ''.'' \<in> set s"
  using assms by (auto simp: endsWith_def suffix_def)

text \<open>
  Claim C8. The detected type depends on the lower-cased path only, and is decided by its
  suffix: jpg exactly for the suffixes .jpg and .jpeg, gif for .gif, png for .png, heic
  for .heic, tiff for .tiff, webp for .webp, and unknown exactly when none of these
  suffixes matches, which covers every path without a dot. A suffix of the lower-cased
  path is a suffix of the path up to the case of its letters.
\<close>

theorem deriveImageTypeFromPath_classifies:
  "(toLowerCase p = toLowerCase q \<longrightarrow>
      deriveImageTypeFromPath p = deriveImageTypeFromPath q)
   \<and> (endsWith (toLowerCase p) s \<longleftrightarrow> (\<exists>pre ext. p = pre @ ext \<and> toLowerCase ext = s))
   \<and> (deriveImageTypeFromPath p = ''jpg'' \<longleftrightarrow>
        endsWith (toLowerCase p) ''.jpg'' \<or> endsWith (toLowerCase p) ''.jpeg'')
   \<and> (deriveImageTypeFromPath p = ''gif'' \<longleftrightarrow> endsWith (toLowerCase p) ''.gif'')
   \<and> (deriveImageTypeFromPath p = ''png'' \<longleftrightarrow> endsWith (toLowerCase p) ''.png'')
   \<and> (deriveImageTypeFromPath p = ''heic'' \<longleftrightarrow> endsWith (toLowerCase p) ''.heic'')
   \<and> (deriveImageTypeFromPath p = ''tiff'' \<longleftrightarrow> endsWith (toLowerCase p) ''.tiff'')
   \<and> (deriveImageTypeFromPath p = ''webp'' \<longleftrightarrow> endsWith (toLowerCase p) ''.webp'')
   \<and> (deriveImageTypeFromPath p = ''unknown'' \<longleftrightarrow>
        \<not> (endsWith (toLowerCase p) ''.jpg'' \<or> endsWith (toLowerCase p) ''.jpeg''
           \<or> endsWith (toLowerCase p) ''.gif'' \<or> endsWith (toLowerCase p) ''.png''
           \<or> endsWith (toLowerCase p) ''.heic'' \<or> endsWith (toLowerCase p) ''.tiff''
           \<or> endsWith (toLowerCase p) ''.webp''))
   \<and> (CHR ''.'' \<notin> set p \<longrightarrow> deriveImageTypeFromPath p = ''unknown'')"
proof -
  let ?l = "toLowerCase p"
  have pure: "toLowerCase p = toLowerCase q \<longrightarrow>
      deriveImageTypeFromPath p = deriveImageTypeFromPath q"
    by (simp add: deriveImageTypeFromPath_def)
  have nodot: "CHR ''.'' \<notin> set p \<longrightarrow> deriveImageTypeFromPath p = ''unknown''"
  proof
    assume "CHR ''.'' \<notin> set p"
    then have "CHR ''.'' \<notin> set ?l" by (simp add: dot_in_toLowerCase)
    then have "\<And>t. CHR ''.'' \<in> set t \<Longrightarrow> \<not> endsWith ?l t"
      using endsWith_dot by blast
    then show "deriveImageTypeFromPath p = ''unknown''"
      by (simp add: deriveImageTypeFromPath_def Let_def)
  qed
  have rest: "(deriveImageTypeFromPath p = ''jpg'' \<longleftrightarrow>
        endsWith ?l ''.jpg'' \<or> endsWith ?l ''.jpeg'')
   \<and> (deriveImageTypeFromPath p = ''gif'' \<longleftrightarrow> endsWith ?l ''.gif'')
   \<and> (deriveImageTypeFromPath p = ''png'' \<longleftrightarrow> endsWith ?l ''.png'')
   \<and> (deriveImageTypeFromPath p = ''heic'' \<longleftrightarrow> endsWith ?l ''.heic'')
   \<and> (deriveImageTypeFromPath p = ''tiff'' \<longleftrightarrow> endsWith ?l ''.tiff'')
   \<and> (deriveImageTypeFromPath p = ''webp'' \<longleftrightarrow> endsWith ?l ''.webp'')
   \<and> (deriveImageTypeFromPath p = ''unknown'' \<longleftrightarrow>
        \<not> (endsWith ?l ''.jpg'' \<or> endsWith ?l ''.jpeg''
           \<or> endsWith ?l ''.gif'' \<or> endsWith ?l ''.png''
           \<or> endsWith ?l ''.heic'' \<or> endsWith ?l ''.tiff''
           \<or> endsWith ?l ''.webp''))"
    unfolding deriveImageTypeFromPath_def Let_def endsWith_def
    by (auto simp: suffix_def)
  have insens: "endsWith ?l s \<longleftrightarrow> (\<exists>pre ext. p = pre @ ext \<and> toLowerCase ext = s)"
    by (auto simp: endsWith_def suffix_def toLowerCase_def map_eq_append_conv)
  from pure insens nodot rest show ?thesis by blast
qed

theorem deriveImageTypeFromPath_classifies_witness:
  "toLowerCase ''photo.PNG'' = toLowerCase ''PHOTO.png''
   \<and> deriveImageTypeFromPath ''photo.PNG'' = deriveImageTypeFromPath ''PHOTO.png''
   \<and> endsWith (toLowerCase ''photo.PNG'') ''.png''
   \<and> deriveImageTypeFromPath ''photo.PNG'' = ''png''
   \<and> CHR ''.'' \<notin> set ''README''
   \<and> deriveImageTypeFromPath ''README'' = ''unknown''"
proof -
  have h1: "toLowerCase ''photo.PNG'' = toLowerCase ''PHOTO.png''"
    by (simp add: toLowerCase_def lowerChar_def char_of_def bit_Suc_0_iff)
  have h2: "endsWith (toLowerCase ''photo.PNG'') ''.png''"
    by (simp add: toLowerCase_def lowerChar_def char_of_def bit_Suc_0_iff endsWith_def
          suffix_to_prefix)
  have h3: "CHR ''.'' \<notin> set ''README''" by simp
  note c = deriveImageTypeFromPath_classifies[of "''photo.PNG''" "''PHOTO.png''"]
  note d = deriveImageTypeFromPath_classifies[of "''README''" "''README''"]
  from c[THEN conjunct1] h1
  have e1: "deriveImageTypeFromPath ''photo.PNG'' = deriveImageTypeFromPath ''PHOTO.png''"
    by (rule mp)
  from c[THEN conjunct2, THEN conjunct2, THEN conjunct2, THEN conjunct2, THEN conjunct1] h2
  have e2: "deriveImageTypeFromPath ''photo.PNG'' = ''png''"
    by (rule iffD2)
  from d[THEN conjunct2, THEN conjunct2, THEN conjunct2, THEN conjunct2, THEN conjunct2,
         THEN conjunct2, THEN conjunct2, THEN conjunct2, THEN conjunct2] h3
  have e3: "deriveImageTypeFromPath ''README'' = ''unknown''"
    by (rule mp)
  show ?thesis by (intro conjI h1 e1 h2 e2 h3 e3)
qed


section \<open>Rounding to a double\<close>

lemma roundHalfEven_le: "of_int (roundHalfEven y) \<le> y + 1 / 2"
proof -
  have "of_int \<lfloor>y\<rfloor> \<le> y" "y < of_int \<lfloor>y\<rfloor> + 1" by linarith+
  then show ?thesis unfolding roundHalfEven_def Let_def by (simp; linarith)
qed

lemma roundHalfEven_ge: "y - 1 / 2 \<le> of_int (roundHalfEven y)"
proof -
  have "of_int \<lfloor>y\<rfloor> \<le> y" "y < of_int \<lfloor>y\<rfloor> + 1" by linarith+
  then show ?thesis unfolding roundHalfEven_def Let_def by (simp; linarith)
qed

lemma roundHalfEven_of_int: "roundHalfEven (of_int N) = N"
  by (simp add: roundHalfEven_def)

lemma roundHalfEven_le_int:
  assumes "y \<le> of_int N"
  shows "roundHalfEven y \<le> N"
proof (cases "y = of_int N")
  case True
  then show ?thesis by (simp add: roundHalfEven_of_int)
next
  case False
  with assms have "y < of_int N" by simp
  then have "\<lfloor>y\<rfloor> < N" by (simp add: floor_less_iff)
  then show ?thesis unfolding roundHalfEven_def Let_def by auto
qed

lemma roundHalfEven_eq:
  assumes "of_int n - 1 / 2 < y" and "y < of_int n + 1 / 2"
  shows "roundHalfEven y = n"
proof -
  have "of_int (roundHalfEven y) < (of_int n :: rat) + 1"
    using roundHalfEven_le[of y] assms by linarith
  then have "of_int (roundHalfEven y) < (of_int (n + 1) :: rat)" by simp
  then have a: "roundHalfEven y < n + 1" by (simp only: of_int_less_iff)
  have "(of_int n :: rat) - 1 < of_int (roundHalfEven y)"
    using roundHalfEven_ge[of y] assms by linarith
  then have "(of_int (n - 1) :: rat) < of_int (roundHalfEven y)" by simp
  then have b: "n - 1 < roundHalfEven y" by (simp only: of_int_less_iff)
  from a b show ?thesis by simp
qed

lemma two_powi_pos: "(0 :: rat) < 2 powi k"
  by simp

lemma binaryExponent_bounds:
  assumes "x \<noteq> 0"
  shows "2 powi (binaryExponent x) \<le> \<bar>x\<bar> \<and> \<bar>x\<bar> < 2 powi (binaryExponent x + 1)"
proof -
  obtain p q where pq: "quotient_of \<bar>x\<bar> = (p, q)" by (cases "quotient_of \<bar>x\<bar>")
  then have q: "0 < q" by (rule quotient_of_denom_pos)
  from pq have x: "\<bar>x\<bar> = of_int p / of_int q" by (rule quotient_of_div)
  from assms have "0 < \<bar>x\<bar>" by simp
  with x q have p: "0 < p" by (simp add: zero_less_divide_iff)
  let ?a = "bitlen p" and ?b = "bitlen q"
  let ?k = "?a - ?b"
  from bitlen_bounds[OF p] have pl: "2 ^ nat (?a - 1) \<le> p" and pu: "p < 2 ^ nat ?a" by simp_all
  from bitlen_bounds[OF q] have ql: "2 ^ nat (?b - 1) \<le> q" and qu: "q < 2 ^ nat ?b" by simp_all
  have a1: "1 \<le> ?a" using p bitlen_eq_zero_iff[of p] bitlen_nonneg[of p] by linarith
  have b1: "1 \<le> ?b" using q bitlen_eq_zero_iff[of q] bitlen_nonneg[of q] by linarith
  have conv: "\<And>n::int. 0 \<le> n \<Longrightarrow> (2 :: rat) ^ nat n = 2 powi n"
    by (simp add: power_int_def)
  have plr: "(2 :: rat) powi (?a - 1) \<le> of_int p"
  proof -
    from pl have "(of_int (2 ^ nat (?a - 1)) :: rat) \<le> of_int p" by (simp only: of_int_le_iff)
    then show ?thesis using a1 by (simp add: conv)
  qed
  have pur: "(of_int p :: rat) < 2 powi ?a"
  proof -
    from pu have "(of_int p :: rat) < of_int (2 ^ nat ?a)" by (simp only: of_int_less_iff)
    then show ?thesis using a1 by (simp add: conv)
  qed
  have qlr: "(2 :: rat) powi (?b - 1) \<le> of_int q"
  proof -
    from ql have "(of_int (2 ^ nat (?b - 1)) :: rat) \<le> of_int q" by (simp only: of_int_le_iff)
    then show ?thesis using b1 by (simp add: conv)
  qed
  have qur: "(of_int q :: rat) < 2 powi ?b"
  proof -
    from qu have "(of_int q :: rat) < of_int (2 ^ nat ?b)" by (simp only: of_int_less_iff)
    then show ?thesis using b1 by (simp add: conv)
  qed
  have qpos: "(0 :: rat) < of_int q" using q by simp
  have upper: "\<bar>x\<bar> < 2 powi (?k + 1)"
  proof -
    have "of_int p * (2 :: rat) powi (?b - 1) < 2 powi ?a * of_int q"
    proof -
      have "of_int p * (2 :: rat) powi (?b - 1) \<le> of_int p * of_int q"
        using qlr p by (intro mult_left_mono) simp_all
      also have "\<dots> < 2 powi ?a * of_int q"
        using pur qpos by (intro mult_strict_right_mono)
      finally show ?thesis .
    qed
    then have "of_int p / of_int q < (2 :: rat) powi ?a / 2 powi (?b - 1)"
      using qpos by (simp add: field_simps)
    also have "\<dots> = 2 powi (?a - (?b - 1))" by (simp add: power_int_diff)
    also have "?a - (?b - 1) = ?k + 1" by simp
    finally show ?thesis by (simp only: x)
  qed
  have lower: "2 powi (?k - 1) < \<bar>x\<bar>"
  proof -
    have "(2 :: rat) powi (?a - 1) * of_int q < of_int p * 2 powi ?b"
    proof -
      have "(2 :: rat) powi (?a - 1) * of_int q < 2 powi (?a - 1) * 2 powi ?b"
        using qur by (intro mult_strict_left_mono) simp_all
      also have "\<dots> \<le> of_int p * 2 powi ?b"
        using plr by (intro mult_right_mono) simp_all
      finally show ?thesis .
    qed
    then have "(2 :: rat) powi (?a - 1) / 2 powi ?b < of_int p / of_int q"
      using qpos by (simp add: field_simps)
    moreover have "(2 :: rat) powi (?a - 1) / 2 powi ?b = 2 powi (?a - 1 - ?b)"
      by (simp add: power_int_diff)
    moreover have "?a - 1 - ?b = ?k - 1" by simp
    ultimately show ?thesis by (simp only: x)
  qed
  have e: "binaryExponent x = (if 2 powi ?k \<le> \<bar>x\<bar> then ?k else ?k - 1)"
    by (simp add: binaryExponent_def pq Let_def)
  show ?thesis
  proof (cases "2 powi ?k \<le> \<bar>x\<bar>")
    case True
    with e upper show ?thesis by simp
  next
    case False
    with e lower show ?thesis by simp
  qed
qed

lemma binaryExponent_unique:
  assumes "x \<noteq> 0" and "2 powi e \<le> \<bar>x\<bar>" and "\<bar>x\<bar> < 2 powi (e + 1)"
  shows "binaryExponent x = e"
proof -
  note b = binaryExponent_bounds[OF assms(1)]
  from b assms(3) have "(2 :: rat) powi binaryExponent x < 2 powi (e + 1)" by linarith
  then have "binaryExponent x < e + 1"
    by (metis not_le numeral_One numeral_less_iff one_le_numeral power_int_increasing
          semiring_norm(76) leD linorder_not_less one_less_numeral_iff)
  moreover from b assms(2) have "(2 :: rat) powi e < 2 powi (binaryExponent x + 1)" by linarith
  then have "e < binaryExponent x + 1"
    by (metis not_le numeral_One numeral_less_iff one_le_numeral power_int_increasing
          semiring_norm(76) leD linorder_not_less one_less_numeral_iff)
  ultimately show ?thesis by simp
qed

lemma toDouble_unfold:
  assumes "x \<noteq> 0"
  shows "toDouble x =
           of_int (roundHalfEven (x / 2 powi (binaryExponent x - 52)))
             * 2 powi (binaryExponent x - 52)"
  using assms by (simp add: toDouble_def Let_def)

lemma toDouble_eval:
  assumes "x \<noteq> 0" and "2 powi (e + 52) \<le> \<bar>x\<bar>" and "\<bar>x\<bar> < 2 powi (e + 53)"
  shows "toDouble x = of_int (roundHalfEven (x / 2 powi e)) * 2 powi e"
proof -
  have "e + 53 = (e + 52) + 1" by simp
  with assms(3) have "\<bar>x\<bar> < 2 powi ((e + 52) + 1)" by simp
  with assms(1,2) have "binaryExponent x = e + 52" by (rule binaryExponent_unique)
  with toDouble_unfold[OF assms(1)] show ?thesis by simp
qed

lemma two_powi_52: "(2 :: rat) powi (e + 52) = 2 powi e * 2 ^ 52"
  by (simp add: power_int_add)

lemma toDouble_upper:
  assumes "0 < x"
  shows "toDouble x \<le> x * (1 + 1 / 2 ^ 53)"
proof -
  let ?e = "binaryExponent x - 52"
  let ?s = "(2 :: rat) powi ?e"
  have x0: "x \<noteq> 0" using assms by simp
  have s: "0 < ?s" by simp
  from binaryExponent_bounds[OF x0] assms have "2 powi (?e + 52) \<le> x" by simp
  then have big: "?s * 2 ^ 52 \<le> x" by (simp only: two_powi_52)
  have "of_int (roundHalfEven (x / ?s)) \<le> x / ?s + 1 / 2" by (rule roundHalfEven_le)
  then have "of_int (roundHalfEven (x / ?s)) * ?s \<le> (x / ?s + 1 / 2) * ?s"
    using s by (intro mult_right_mono) simp_all
  also have "\<dots> = x + ?s / 2" using s by (simp add: field_simps)
  also have "\<dots> \<le> x * (1 + 1 / 2 ^ 53)" using big by (simp add: field_simps)
  finally show ?thesis by (simp only: toDouble_unfold[OF x0])
qed

lemma toDouble_lower:
  assumes "0 < x"
  shows "x * (1 - 1 / 2 ^ 53) \<le> toDouble x"
proof -
  let ?e = "binaryExponent x - 52"
  let ?s = "(2 :: rat) powi ?e"
  have x0: "x \<noteq> 0" using assms by simp
  have s: "0 < ?s" by simp
  from binaryExponent_bounds[OF x0] assms have "2 powi (?e + 52) \<le> x" by simp
  then have big: "?s * 2 ^ 52 \<le> x" by (simp only: two_powi_52)
  have "x * (1 - 1 / 2 ^ 53) \<le> x - ?s / 2" using big by (simp add: field_simps)
  also have "\<dots> = (x / ?s - 1 / 2) * ?s" using s by (simp add: field_simps)
  also have "\<dots> \<le> of_int (roundHalfEven (x / ?s)) * ?s"
    using s roundHalfEven_ge[of "x / ?s"] by (intro mult_right_mono) simp_all
  finally show ?thesis by (simp only: toDouble_unfold[OF x0])
qed

lemma toDouble_pos:
  assumes "0 < x"
  shows "0 < toDouble x"
proof -
  have "0 < x * (1 - 1 / 2 ^ 53)" using assms by simp
  with toDouble_lower[OF assms] show ?thesis by linarith
qed

lemma toDouble_le_double:
  assumes "0 < x" and "x \<le> of_int m * 2 powi k" and "m < 2 ^ 53"
  shows "toDouble x \<le> of_int m * 2 powi k"
proof -
  let ?e = "binaryExponent x - 52"
  let ?s = "(2 :: rat) powi ?e"
  have x0: "x \<noteq> 0" using assms by simp
  have s: "0 < ?s" by simp
  from binaryExponent_bounds[OF x0] assms(1) have lo: "2 powi (?e + 52) \<le> x" by simp
  have ek: "?e \<le> k"
  proof (rule ccontr)
    assume "\<not> ?e \<le> k"
    then have "k + 53 \<le> ?e + 52" by simp
    then have le: "(2 :: rat) powi (k + 53) \<le> 2 powi (?e + 52)"
      by (intro power_int_increasing) simp_all
    from assms(3) have "(of_int m :: rat) < of_int (2 ^ 53)" by (simp only: of_int_less_iff)
    then have "(of_int m :: rat) < 2 ^ 53" by simp
    then have "of_int m * (2 :: rat) powi k < 2 ^ 53 * 2 powi k"
      by (intro mult_strict_right_mono) simp_all
    also have "\<dots> = 2 powi (k + 53)" by (simp add: power_int_add)
    finally have "of_int m * (2 :: rat) powi k < 2 powi (?e + 52)" using le by linarith
    with lo assms(2) show False by linarith
  qed
  then have conv: "(2 :: rat) powi (k - ?e) = of_int (2 ^ nat (k - ?e))"
    by (simp add: power_int_def)
  have split: "(2 :: rat) powi k = 2 powi (k - ?e) * ?s"
  proof -
    have "(2 :: rat) powi ((k - ?e) + ?e) = 2 powi (k - ?e) * 2 powi ?e"
      by (rule power_int_add) simp
    then show ?thesis by simp
  qed
  have r: "of_int m * (2 :: rat) powi k = of_int (m * 2 ^ nat (k - ?e)) * ?s"
    by (simp add: split conv)
  from assms(2) have "x / ?s \<le> of_int (m * 2 ^ nat (k - ?e))"
    using s by (simp add: r field_simps)
  then have "roundHalfEven (x / ?s) \<le> m * 2 ^ nat (k - ?e)" by (rule roundHalfEven_le_int)
  then have "(of_int (roundHalfEven (x / ?s)) :: rat) \<le> of_int (m * 2 ^ nat (k - ?e))"
    by (simp only: of_int_le_iff)
  then have "of_int (roundHalfEven (x / ?s)) * ?s \<le> of_int (m * 2 ^ nat (k - ?e)) * ?s"
    using s by (intro mult_right_mono) simp_all
  then show ?thesis by (simp only: toDouble_unfold[OF x0] r)
qed

section \<open>The width handed to resize\<close>

lemma downscaledWidth_finite:
  assumes "0 < B" and "0 < w"
  shows "downscaledWidth mb mW B w =
           Finite (of_int \<lfloor>toDouble (of_nat w *
                      min (min 1 (toDouble (of_int mW / of_nat w)))
                          (min 1 (toDouble (of_int mb / of_nat B)))) + 1 / 2\<rfloor>)"
  using assms by (simp add: downscaledWidth_def js_divide_def Let_def)

lemma downscaledWidth_le:
  assumes "0 < B" and "0 < w" and "0 < mb" and "0 < mW" and "mW < 2 ^ 51"
  shows "\<lfloor>toDouble (of_nat w *
            min (min 1 (toDouble (of_int mW / of_nat w)))
                (min 1 (toDouble (of_int mb / of_nat B)))) + 1 / 2\<rfloor> \<le> mW"
proof -
  let ?A = "(of_int mW :: rat) / of_nat w"
  let ?C = "(of_int mb :: rat) / of_nat B"
  let ?a = "toDouble ?A" and ?b = "toDouble ?C"
  let ?f = "min (min 1 ?a) (min 1 ?b)"
  let ?y = "of_nat w * ?f"
  have wpos: "(0 :: rat) < of_nat w" using assms(2) by simp
  have Apos: "0 < ?A" using assms(2,4) by simp
  have Cpos: "0 < ?C" using assms(1,3) by simp
  have apos: "0 < ?a" using Apos by (rule toDouble_pos)
  have bpos: "0 < ?b" using Cpos by (rule toDouble_pos)
  have fpos: "0 < ?f" using apos bpos by simp
  have ypos: "0 < ?y" using wpos fpos by simp
  have mWr: "(of_int mW :: rat) < 2 ^ 51"
  proof -
    from assms(5) have "(of_int mW :: rat) < of_int (2 ^ 51)" by (simp only: of_int_less_iff)
    then show ?thesis by simp
  qed
  have yle: "?y \<le> of_int mW + 1 / 4"
  proof (cases "int w \<le> mW")
    case True
    then have "(of_int (int w) :: rat) \<le> of_int mW" by (simp only: of_int_le_iff)
    then have "(of_nat w :: rat) \<le> of_int mW" by simp
    moreover have "?y \<le> of_nat w * 1"
      using wpos by (intro mult_left_mono) simp_all
    ultimately show ?thesis by simp
  next
    case False
    have "?f \<le> ?a" by simp
    also have "?a \<le> ?A * (1 + 1 / 2 ^ 53)" using Apos by (rule toDouble_upper)
    finally have "?y \<le> of_nat w * (?A * (1 + 1 / 2 ^ 53))"
      using wpos by (intro mult_left_mono) simp_all
    also have "\<dots> = of_int mW + of_int mW / 2 ^ 53"
      using wpos by (simp add: field_simps)
    also have "\<dots> \<le> of_int mW + 1 / 4" using mWr by simp
    finally show ?thesis .
  qed
  have rep: "(of_int mW :: rat) + 1 / 4 = of_int (4 * mW + 1) * 2 powi (- 2)"
    by (simp add: power_int_minus field_simps)
  have small: "4 * mW + 1 < 2 ^ 53" using assms(5) by simp
  from yle have "?y \<le> of_int (4 * mW + 1) * 2 powi (- 2)" by (simp only: rep)
  with ypos have "toDouble ?y \<le> of_int (4 * mW + 1) * 2 powi (- 2)"
    using small by (rule toDouble_le_double)
  then have "toDouble ?y \<le> of_int mW + 1 / 4" by (simp only: rep)
  then have "toDouble ?y + 1 / 2 < of_int mW + 1" by simp
  then show ?thesis by (simp only: floor_le_iff)
qed

lemma min_scaled_upper:
  fixes a A u :: rat
  assumes "0 \<le> u" and "a \<le> A * (1 + u)" and "0 < A"
  shows "min 1 a \<le> min 1 A * (1 + u)"
proof (cases "A \<le> 1")
  case True
  then have "min 1 A = A" by simp
  moreover have "min 1 a \<le> a" by simp
  ultimately show ?thesis using assms(2) by simp
next
  case False
  then have "min 1 A = 1" by simp
  moreover have "min 1 a \<le> 1" by simp
  ultimately show ?thesis using assms(1) by simp
qed

lemma min_scaled_lower:
  fixes a A u :: rat
  assumes "0 \<le> u" and "u \<le> 1" and "A * (1 - u) \<le> a" and "0 < A"
  shows "min 1 A * (1 - u) \<le> min 1 a"
proof (cases "A \<le> 1")
  case True
  then have m: "min 1 A = A" by simp
  have "A * (1 - u) \<le> A * 1" using assms(1,4) by (intro mult_left_mono) simp_all
  then have "A * (1 - u) \<le> 1" using True by simp
  with assms(3) m show ?thesis by simp
next
  case False
  then have m: "min 1 A = 1" by simp
  have "1 * (1 - u) \<le> A * (1 - u)" using False assms(2) by (intro mult_right_mono) simp_all
  with assms(3) have "1 - u \<le> a" by simp
  moreover have "1 - u \<le> 1" using assms(1) by simp
  ultimately show ?thesis using m by simp
qed

lemma min_pair_upper:
  fixes c x y X Y :: rat
  assumes "0 \<le> c" and "x \<le> X * c" and "y \<le> Y * c"
  shows "min x y \<le> min X Y * c"
proof (cases "X \<le> Y")
  case True
  then have m: "min X Y = X" by simp
  have "min x y \<le> x" by simp
  with assms(2) show ?thesis unfolding m by linarith
next
  case False
  then have m: "min X Y = Y" by simp
  have "min x y \<le> y" by simp
  with assms(3) show ?thesis unfolding m by linarith
qed

lemma floor_near:
  fixes P X :: rat
  assumes "P < X + 1" and "X - 1 < P"
  shows "\<bar>\<lfloor>P\<rfloor> - \<lfloor>X\<rfloor>\<bar> \<le> 1"
proof -
  have "of_int \<lfloor>X\<rfloor> \<le> X" "X < of_int \<lfloor>X\<rfloor> + 1"
    "of_int \<lfloor>P\<rfloor> \<le> P" "P < of_int \<lfloor>P\<rfloor> + 1"
    by linarith+
  with assms have "(of_int \<lfloor>P\<rfloor> :: rat) < of_int \<lfloor>X\<rfloor> + 2"
    and "(of_int \<lfloor>X\<rfloor> :: rat) < of_int \<lfloor>P\<rfloor> + 2"
    by linarith+
  then have "(of_int \<lfloor>P\<rfloor> :: rat) < of_int (\<lfloor>X\<rfloor> + 2)"
    and "(of_int \<lfloor>X\<rfloor> :: rat) < of_int (\<lfloor>P\<rfloor> + 2)"
    by simp_all
  then have "\<lfloor>P\<rfloor> < \<lfloor>X\<rfloor> + 2" and "\<lfloor>X\<rfloor> < \<lfloor>P\<rfloor> + 2"
    by (simp_all only: of_int_less_iff)
  then show ?thesis by linarith
qed

lemma min_pair_lower:
  fixes c x y X Y :: rat
  assumes "0 \<le> c" and "X * c \<le> x" and "Y * c \<le> y"
  shows "min X Y * c \<le> min x y"
proof -
  have "min X Y * c \<le> X * c" using assms(1) by (intro mult_right_mono) simp_all
  moreover have "min X Y * c \<le> Y * c" using assms(1) by (intro mult_right_mono) simp_all
  ultimately show ?thesis using assms(2,3) by simp
qed

lemma downscaledWidth_near:
  assumes "0 < B" and "0 < w" and "0 < mb" and "0 < mW" and "w < 2 ^ 51"
  shows "\<bar>\<lfloor>toDouble (of_nat w *
            min (min 1 (toDouble (of_int mW / of_nat w)))
                (min 1 (toDouble (of_int mb / of_nat B)))) + 1 / 2\<rfloor>
          - specOutputWidth w B mb mW\<bar> \<le> 1"
proof -
  let ?u = "(1 :: rat) / 2 ^ 53"
  let ?A = "(of_int mW :: rat) / of_nat w"
  let ?C = "(of_int mb :: rat) / of_nat B"
  let ?a = "toDouble ?A" and ?b = "toDouble ?C"
  let ?f = "min (min 1 ?a) (min 1 ?b)"
  let ?F = "min (min 1 ?A) (min 1 ?C)"
  let ?y = "of_nat w * ?f"
  let ?Y = "of_nat w * ?F"
  let ?p = "toDouble ?y"
  have u0: "0 \<le> ?u" and u1: "?u \<le> 1" by simp_all
  have wpos: "(0 :: rat) < of_nat w" using assms(2) by simp
  have Apos: "0 < ?A" using assms(2,4) by simp
  have Cpos: "0 < ?C" using assms(1,3) by simp
  have apos: "0 < ?a" using Apos by (rule toDouble_pos)
  have bpos: "0 < ?b" using Cpos by (rule toDouble_pos)
  have fpos: "0 < ?f" using apos bpos by simp
  have Fpos: "0 < ?F" using Apos Cpos by simp
  have F1: "?F \<le> 1" by simp
  have ypos: "0 < ?y" using wpos fpos by simp
  have Ypos: "0 < ?Y" using wpos Fpos by simp
  have au: "min 1 ?a \<le> min 1 ?A * (1 + ?u)"
    using u0 toDouble_upper[OF Apos] Apos by (rule min_scaled_upper)
  have bu: "min 1 ?b \<le> min 1 ?C * (1 + ?u)"
    using u0 toDouble_upper[OF Cpos] Cpos by (rule min_scaled_upper)
  have al: "min 1 ?A * (1 - ?u) \<le> min 1 ?a"
    using u0 u1 toDouble_lower[OF Apos] Apos by (rule min_scaled_lower)
  have bl: "min 1 ?C * (1 - ?u) \<le> min 1 ?b"
    using u0 u1 toDouble_lower[OF Cpos] Cpos by (rule min_scaled_lower)
  have fu: "?f \<le> ?F * (1 + ?u)"
    by (rule min_pair_upper[OF _ au bu]) simp
  have fl: "?F * (1 - ?u) \<le> ?f"
    by (rule min_pair_lower[OF _ al bl]) simp
  have yu: "?y \<le> ?Y * (1 + ?u)"
  proof -
    have "of_nat w * ?f \<le> of_nat w * (?F * (1 + ?u))"
      using wpos fu by (intro mult_left_mono) simp_all
    then show ?thesis by (simp add: mult.assoc)
  qed
  have yl: "?Y * (1 - ?u) \<le> ?y"
  proof -
    have "of_nat w * (?F * (1 - ?u)) \<le> of_nat w * ?f"
      using wpos fl by (intro mult_left_mono) simp_all
    then show ?thesis by (simp add: mult.assoc)
  qed
  have pu: "?p \<le> ?Y * (1 + ?u) * (1 + ?u)"
  proof -
    have "?p \<le> ?y * (1 + ?u)" using ypos by (rule toDouble_upper)
    also have "\<dots> \<le> (?Y * (1 + ?u)) * (1 + ?u)"
      using yu by (intro mult_right_mono) simp_all
    finally show ?thesis .
  qed
  have pl: "?Y * (1 - ?u) * (1 - ?u) \<le> ?p"
  proof -
    have "(?Y * (1 - ?u)) * (1 - ?u) \<le> ?y * (1 - ?u)"
      using yl by (intro mult_right_mono) simp_all
    also have "\<dots> \<le> ?p" using ypos by (rule toDouble_lower)
    finally show ?thesis .
  qed
  have wr: "(of_nat w :: rat) < 2 ^ 51"
  proof -
    from assms(5) have "(of_nat w :: rat) < of_nat (2 ^ 51)" by (simp only: of_nat_less_iff)
    then show ?thesis by simp
  qed
  have Yw: "?Y \<le> of_nat w"
  proof -
    have "of_nat w * ?F \<le> of_nat w * 1" using wpos F1 by (intro mult_left_mono) simp_all
    then show ?thesis by simp
  qed
  have Ysmall: "?Y < 2 ^ 51" using Yw wr by linarith
  have up: "?p < ?Y + 1"
  proof -
    have "?Y * (1 + ?u) * (1 + ?u) = ?Y + ?Y * (2 * ?u + ?u * ?u)" by (simp add: algebra_simps)
    moreover have "?Y * (2 * ?u + ?u * ?u) < 2 ^ 51 * (2 * ?u + ?u * ?u)"
      using Ysmall by (intro mult_strict_right_mono) simp_all
    moreover have "(2 :: rat) ^ 51 * (2 * ?u + ?u * ?u) < 1" by simp
    ultimately show ?thesis using pu by linarith
  qed
  have low: "?Y - 1 < ?p"
  proof -
    have "?Y * (1 - ?u) * (1 - ?u) = ?Y - ?Y * (2 * ?u - ?u * ?u)" by (simp add: algebra_simps)
    moreover have "?Y * (2 * ?u - ?u * ?u) < 2 ^ 51 * (2 * ?u - ?u * ?u)"
      using Ysmall by (intro mult_strict_right_mono) simp_all
    moreover have "(2 :: rat) ^ 51 * (2 * ?u - ?u * ?u) < 1" by simp
    ultimately show ?thesis using pl by linarith
  qed
  have s: "specOutputWidth w B mb mW = \<lfloor>?Y + 1 / 2\<rfloor>"
    by (simp add: specOutputWidth_def round_def min.commute)
  have "?p + 1 / 2 < (?Y + 1 / 2) + 1" using up by simp
  moreover have "(?Y + 1 / 2) - 1 < ?p + 1 / 2" using low by simp
  ultimately have "\<bar>\<lfloor>?p + 1 / 2\<rfloor> - \<lfloor>?Y + 1 / 2\<rfloor>\<bar> \<le> 1" by (rule floor_near)
  then show ?thesis by (simp only: s)
qed

lemma toDouble_eqI:
  assumes "x \<noteq> 0" and "2 powi (e + 52) \<le> \<bar>x\<bar>" and "\<bar>x\<bar> < 2 powi (e + 53)"
    and "of_int n - 1 / 2 < x / 2 powi e" and "x / 2 powi e < of_int n + 1 / 2"
    and "r = of_int n * 2 powi e"
  shows "toDouble x = r"
  using toDouble_eval[OF assms(1-3)] roundHalfEven_eq[OF assms(4,5)] assms(6) by simp

lemma toDouble_half: "toDouble (1 / 2) = 1 / 2"
  by (rule toDouble_eqI[where e = "-53" and n = 4503599627370496]) simp_all

lemma toDouble_d24: "toDouble (24) = 24"
  by (rule toDouble_eqI[where e = "-48" and n = 6755399441055744]) simp_all

lemma toDouble_five_halves: "toDouble (5 / 2) = 5 / 2"
  by (rule toDouble_eqI[where e = "-51" and n = 5629499534213120]) simp_all

lemma toDouble_d_1_25: "toDouble (1 / 25) = 5764607523034235 / 144115188075855872"
  by (rule toDouble_eqI[where e = "-57" and n = 5764607523034235]) simp_all

lemma toDouble_d_2_5: "toDouble (2 / 5) = 3602879701896397 / 9007199254740992"
  by (rule toDouble_eqI[where e = "-54" and n = 7205759403792794]) simp_all

lemma toDouble_d_7_10: "toDouble (7 / 10) = 3152519739159347 / 4503599627370496"
  by (rule toDouble_eqI[where e = "-53" and n = 6305039478318694]) simp_all

lemma toDouble_d_8_3: "toDouble (8 / 3) = 6004799503160661 / 2251799813685248"
  by (rule toDouble_eqI[where e = "-51" and n = 6004799503160661]) simp_all

lemma toDouble_d_1_3: "toDouble (1 / 3) = 6004799503160661 / 18014398509481984"
  by (rule toDouble_eqI[where e = "-54" and n = 6004799503160661]) simp_all

lemma toDouble_d120: "toDouble (120) = 120"
  by (rule toDouble_eqI[where e = "-46" and n = 8444249301319680]) simp_all

lemma toDouble_d_6_5: "toDouble (6 / 5) = 5404319552844595 / 4503599627370496"
  by (rule toDouble_eqI[where e = "-52" and n = 5404319552844595]) simp_all

lemma toDouble_photo: "toDouble (2161727821137838125 / 18014398509481984) = 120"
  by (rule toDouble_eqI[where e = "-46" and n = 8444249301319680]) simp_all

lemma toDouble_strip: "toDouble (141863388262170615 / 4503599627370496) = 8866461766385663 / 281474976710656"
  by (rule toDouble_eqI[where e = "-48" and n = 8866461766385663]) simp_all

lemma toDouble_line: "toDouble (6004799503160661 / 18014398509481984) = 6004799503160661 / 18014398509481984"
  by (rule toDouble_eqI[where e = "-54" and n = 6004799503160661]) simp_all

section \<open>Evaluation of characters and strings\<close>

lemmas char_eval = char_of_def bit_Suc_0_iff





lemma type_photo: "deriveImageTypeFromPath ''photo.PNG'' = ''png''"
  by (simp add: deriveImageTypeFromPath_def toLowerCase_def lowerChar_def endsWith_def
        suffix_to_prefix char_eval)

lemma type_icon: "deriveImageTypeFromPath ''icon.gif'' = ''gif''"
  by (simp add: deriveImageTypeFromPath_def toLowerCase_def lowerChar_def endsWith_def
        suffix_to_prefix char_eval)

lemma type_gone: "deriveImageTypeFromPath ''gone.jpg'' = ''jpg''"
  by (simp add: deriveImageTypeFromPath_def toLowerCase_def lowerChar_def endsWith_def
        suffix_to_prefix char_eval)

lemma type_bmp: "deriveImageTypeFromPath ''doc.bmp'' = ''unknown''"
  by (simp add: deriveImageTypeFromPath_def toLowerCase_def lowerChar_def endsWith_def
        suffix_to_prefix char_eval)

lemma cache_time_string: "Number_toString STANDARD_CACHE_TIME = Some ''432000''"
  by (simp add: Number_toString_def STANDARD_CACHE_TIME_def char_eval)

lemma type_strip: "deriveImageTypeFromPath ''strip.png'' = ''png''"
  by (simp add: deriveImageTypeFromPath_def toLowerCase_def lowerChar_def endsWith_def
        suffix_to_prefix char_eval)

lemma type_dot: "deriveImageTypeFromPath ''dot.webp'' = ''webp''"
  by (simp add: deriveImageTypeFromPath_def toLowerCase_def lowerChar_def endsWith_def
        suffix_to_prefix char_eval)

lemma type_line: "deriveImageTypeFromPath ''line.jpg'' = ''jpg''"
  by (simp add: deriveImageTypeFromPath_def toLowerCase_def lowerChar_def endsWith_def
        suffix_to_prefix char_eval)


section \<open>The paths through the transcoder\<close>

lemma getStreamableImage_unknown:
  assumes "deriveImageTypeFromPath (path imageData) = ''unknown''"
  shows "getStreamableImage sharp supabaseClient imageData options w
           = (Inl (Error (''Unknown image type: '' @ path imageData)), w)"
  using assms by (simp add: getStreamableImage_def)

lemma getStreamableImage_accepted:
  assumes "deriveImageTypeFromPath (path imageData) \<noteq> ''unknown''"
    and "supabaseClient (bucket imageData) (path imageData) = Returns r"
    and "dl_error r = None"
    and "dl_data r = Some buffer"
    and "metadata sharp buffer = Returns m"
    and "width m = Some wd"
    and "wd \<noteq> 0"
    and "int (length buffer) > maxSizeBytes options \<or> int wd > maxSizeWidth options
           \<Longrightarrow> rejects sharp Rotate = None"
    and "int (length buffer) > maxSizeBytes options \<or> int wd > maxSizeWidth options
           \<Longrightarrow> rejects sharp (Resize (downscaledWidth (maxSizeBytes options)
                                   (maxSizeWidth options) (length buffer) wd)) = None"
    and "truthy (sharpen options) \<Longrightarrow> rejects sharp (Sharpen (9 / 10)) = None"
    and "rejects sharp (Jpeg (quality options) (progressive options)) = None"
  shows "getStreamableImage sharp supabaseClient imageData options w =
           (Inr \<lparr>input = buffer,
                 ops = (if int (length buffer) > maxSizeBytes options
                           \<or> int wd > maxSizeWidth options
                        then [Rotate,
                              Resize (downscaledWidth (maxSizeBytes options)
                                        (maxSizeWidth options) (length buffer) wd)]
                        else [])
                       @ (if truthy (sharpen options) then [Sharpen (9 / 10)] else [])
                       @ [Jpeg (quality options) (progressive options)]\<rparr>,
            w\<lparr>downloads := downloads w @ [(bucket imageData, path imageData)]\<rparr>)"
  using assms
  by (simp add: getStreamableImage_def loadImageFromSupabase_def Let_def call_def andThen_def)

lemma getStreamableImage_Inr:
  assumes "getStreamableImage sharp supabaseClient imageData options w = (Inr img, w')"
    and "metadata sharp (input img) = Returns m"
    and "width m = Some wd"
  shows "wd \<noteq> 0
           \<and> ops img =
               (if int (length (input img)) > maxSizeBytes options
                   \<or> int wd > maxSizeWidth options
                then [Rotate,
                      Resize (downscaledWidth (maxSizeBytes options) (maxSizeWidth options)
                                (length (input img)) wd)]
                else [])
               @ (if truthy (sharpen options) then [Sharpen (9 / 10)] else [])
               @ [Jpeg (quality options) (progressive options)]
           \<and> w' = w\<lparr>downloads := downloads w @ [(bucket imageData, path imageData)]\<rparr>
           \<and> deriveImageTypeFromPath (path imageData) \<noteq> ''unknown''"
  using assms
  unfolding getStreamableImage_def loadImageFromSupabase_def Let_def call_def andThen_def
  by (auto split: if_splits outcome.splits option.splits sum.splits)

lemma getStreamableImage_downloads:
  "downloads (snd (getStreamableImage sharp supabaseClient imageData options w))
     = downloads w
       @ (if deriveImageTypeFromPath (path imageData) = ''unknown'' then []
          else [(bucket imageData, path imageData)])"
  unfolding getStreamableImage_def loadImageFromSupabase_def Let_def
  by (auto split: if_splits outcome.splits option.splits)

lemma getStreamableImage_keeps:
  "apiRes (snd (getStreamableImage sharp supabaseClient imageData options w)) = apiRes w
   \<and> reported (snd (getStreamableImage sharp supabaseClient imageData options w)) = reported w
   \<and> uncaught (snd (getStreamableImage sharp supabaseClient imageData options w)) = uncaught w"
  unfolding getStreamableImage_def loadImageFromSupabase_def Let_def
  by (auto split: if_splits outcome.splits option.splits)


section \<open>The streaming phase\<close>

lemma pipeInto_calls:
  "\<exists>cs. apiRes (snd (pipeInto evs w)) = apiRes w @ cs \<and> list_all streamCall cs"
proof (induction evs w rule: pipeInto.induct)
  case (2 chunk evs w)
  then obtain cs where
    "apiRes (snd (pipeInto evs (w\<lparr>apiRes := apiRes w @ [PipeWrite chunk]\<rparr>)))
       = (apiRes w @ [PipeWrite chunk]) @ cs" and "list_all streamCall cs"
    by auto
  then have "apiRes (snd (pipeInto (Data chunk # evs) w)) = apiRes w @ (PipeWrite chunk # cs)
      \<and> list_all streamCall (PipeWrite chunk # cs)"
    by (simp add: streamCall_def)
  then show ?case by blast
next
  case (3 evs w)
  have "apiRes (snd (pipeInto (EndEvent # evs) w)) = apiRes w @ [PipeEnd]
      \<and> list_all streamCall [PipeEnd]"
    by (simp add: streamCall_def)
  then show ?case by blast
qed simp_all

lemma pipeInto_keeps:
  "downloads (snd (pipeInto evs w)) = downloads w
   \<and> reported (snd (pipeInto evs w)) = reported w"
  by (induction evs w rule: pipeInto.induct) simp_all

lemma pipeInto_not_rejected: "fst (pipeInto evs w) \<noteq> Rejected e"
  by (induction evs w rule: pipeInto.induct) simp_all

lemma catch_keeps_downloads:
  "downloads (snd (loadImageSafely_catch options e w)) = downloads w"
  by (simp add: loadImageSafely_catch_def Let_def split: option.splits)

lemma try_rejected:
  assumes "loadImageSafely_try sharp supabaseClient imageData options w = (Rejected e, w')"
  shows "apiRes w' = apiRes w \<and> reported w' = reported w \<and> uncaught w' = uncaught w"
proof (cases "bucket imageData = [] \<or> path imageData = []")
  case True
  with assms show ?thesis by (simp add: loadImageSafely_try_def)
next
  case False
  obtain r w1 where g: "getStreamableImage sharp supabaseClient imageData options w = (r, w1)"
    by (cases "getStreamableImage sharp supabaseClient imageData options w")
  show ?thesis
  proof (cases r)
    case (Inl e')
    with assms False g have "w' = w1" by (simp add: loadImageSafely_try_def)
    with getStreamableImage_keeps[of sharp supabaseClient imageData options w] g
    show ?thesis by simp
  next
    case (Inr img)
    with assms False g pipeInto_not_rejected show ?thesis
      by (auto simp: loadImageSafely_try_def dest!: arg_cong[where f = fst])
  qed
qed

section \<open>The scenario, evaluated\<close>

lemma downscaledWidth_eqI:
  assumes "0 < B" and "0 < w"
    and "toDouble (of_int mW / of_nat w) = a"
    and "toDouble (of_int mb / of_nat B) = b"
    and "toDouble (of_nat w * min (min 1 a) (min 1 b)) = p"
    and "of_int z \<le> p + 1 / 2" and "p + 1 / 2 < of_int z + 1"
  shows "downscaledWidth mb mW B w = Finite (of_int z)"
proof -
  from assms(6,7) have "\<lfloor>p + 1 / 2\<rfloor> = z" by (rule floor_unique)
  with downscaledWidth_finite[OF assms(1,2), of mb mW] assms(3,4,5) show ?thesis by simp
qed

lemma width_photo: "downscaledWidth 204800 120 512000 3000 = Finite 120"
  using downscaledWidth_eqI[where mb = 204800 and mW = 120 and B = 512000 and w = 3000
      and a = "5764607523034235 / 144115188075855872"
      and b = "3602879701896397 / 9007199254740992" and p = 120 and z = 120]
  by (simp add: toDouble_d_1_25 toDouble_d_2_5 toDouble_photo)

lemma width_strip: "downscaledWidth 140 120 200 45 = Finite 31"
  using downscaledWidth_eqI[where mb = 140 and mW = 120 and B = 200 and w = 45
      and a = "6004799503160661 / 2251799813685248"
      and b = "3152519739159347 / 4503599627370496"
      and p = "8866461766385663 / 281474976710656" and z = 31]
  by (simp add: toDouble_d_8_3 toDouble_d_7_10 toDouble_strip)

lemma width_dot: "downscaledWidth 1 120 2 5 = Finite 3"
  using downscaledWidth_eqI[where mb = 1 and mW = 120 and B = 2 and w = 5
      and a = 24 and b = "1 / 2" and p = "5 / 2" and z = 3]
  by (simp add: toDouble_d24 toDouble_half toDouble_five_halves)

lemma width_line: "downscaledWidth 1 120 3 1 = Finite 0"
  using downscaledWidth_eqI[where mb = 1 and mW = 120 and B = 3 and w = 1
      and a = 120 and b = "6004799503160661 / 18014398509481984"
      and p = "6004799503160661 / 18014398509481984" and z = 0]
  by (simp add: toDouble_d120 toDouble_d_1_3 toDouble_line)

lemma width_line_Suc: "downscaledWidth 1 120 3 (Suc 0) = Finite 0"
  using width_line by simp

lemma spec_strip: "specOutputWidth 45 200 140 120 = 32"
  unfolding specOutputWidth_def round_def by (rule floor_unique) simp_all

lemma spec_dot: "specOutputWidth 5 2 1 120 = 3"
  unfolding specOutputWidth_def round_def by (rule floor_unique) simp_all

lemmas scenario_defs =
  getStreamableImage_def loadImageFromSupabase_def Let_def call_def andThen_def
  scenarioClient_def scenarioSharp_def scenarioMetadata_def scenarioRejects_def
  positiveWhole_def truthy_def freshWorld_def hundredKbs_def oneKbInBytes_def

lemma photo_transcoded:
  "getStreamableImage scenarioSharp scenarioClient photoRequest thumbnailOptions freshWorld
     = (Inr \<lparr>input = scenarioPhoto, ops = [Rotate, Resize (Finite 120), Jpeg 60 (Some True)]\<rparr>,
        freshWorld\<lparr>downloads := [(''imgs'', ''photo.PNG'')]\<rparr>)"
  by (simp add: scenario_defs photoRequest_def type_photo scenarioPhoto_def thumbnailOptions_def
        width_photo)

lemma icon_transcoded:
  "getStreamableImage scenarioSharp scenarioClient iconRequest thumbnailOptions freshWorld
     = (Inr \<lparr>input = scenarioIcon, ops = [Jpeg 60 (Some True)]\<rparr>,
        freshWorld\<lparr>downloads := [(''imgs'', ''icon.gif'')]\<rparr>)"
  by (simp add: scenario_defs iconRequest_def type_icon scenarioIcon_def thumbnailOptions_def)

lemma strip_transcoded:
  "getStreamableImage scenarioSharp scenarioClient stripRequest smallBudgetOptions freshWorld
     = (Inr \<lparr>input = scenarioStrip, ops = [Rotate, Resize (Finite 31), Jpeg 60 None]\<rparr>,
        freshWorld\<lparr>downloads := [(''imgs'', ''strip.png'')]\<rparr>)"
  by (simp add: scenario_defs stripRequest_def type_strip scenarioStrip_def
        smallBudgetOptions_def bareOptions_def width_strip)

lemma line_rejected:
  "getStreamableImage scenarioSharp scenarioClient lineRequest oneByteOptions freshWorld
     = (Inl (Error ''Expected positive integer for width but received 0 of type number''),
        freshWorld\<lparr>downloads := [(''imgs'', ''line.jpg'')]\<rparr>)"
  by (simp add: scenario_defs lineRequest_def type_line scenarioLine_def
        oneByteOptions_def bareOptions_def width_line_Suc numberText_def Number_toString_def
        char_eval)

lemma photo_metadata:
  "metadata scenarioSharp scenarioPhoto = Returns \<lparr>width = Some 3000\<rparr>"
  by (simp add: scenarioSharp_def scenarioMetadata_def scenarioPhoto_def)

lemma icon_metadata:
  "metadata scenarioSharp scenarioIcon = Returns \<lparr>width = Some 100\<rparr>"
  by (simp add: scenarioSharp_def scenarioMetadata_def scenarioIcon_def)

lemma dot_metadata:
  "metadata scenarioSharp scenarioDot = Returns \<lparr>width = Some 5\<rparr>"
  by (simp add: scenarioSharp_def scenarioMetadata_def scenarioDot_def)

lemma strip_metadata:
  "metadata scenarioSharp scenarioStrip = Returns \<lparr>width = Some 45\<rparr>"
  by (simp add: scenarioSharp_def scenarioMetadata_def scenarioStrip_def)

lemma line_metadata:
  "metadata scenarioSharp scenarioLine = Returns \<lparr>width = Some 1\<rparr>"
  by (simp add: scenarioSharp_def scenarioMetadata_def scenarioLine_def)

section \<open>Transcoder: the resize decision\<close>

lemma getStreamableImage_input:
  assumes "getStreamableImage sharp supabaseClient imageData options w = (Inr img, w')"
    and "supabaseClient (bucket imageData) (path imageData) = Returns r"
    and "dl_data r = Some buffer"
  shows "input img = buffer"
  using assms
  unfolding getStreamableImage_def loadImageFromSupabase_def Let_def call_def andThen_def
  by (auto split: if_splits outcome.splits option.splits sum.splits)

lemma getStreamableImage_resize_rejected:
  assumes "deriveImageTypeFromPath (path imageData) \<noteq> ''unknown''"
    and "supabaseClient (bucket imageData) (path imageData) = Returns r"
    and "dl_error r = None"
    and "dl_data r = Some buffer"
    and "metadata sharp buffer = Returns m"
    and "width m = Some wd"
    and "wd \<noteq> 0"
    and "int (length buffer) > maxSizeBytes options \<or> int wd > maxSizeWidth options"
    and "rejects sharp Rotate = None"
    and "rejects sharp (Resize (downscaledWidth (maxSizeBytes options)
                                   (maxSizeWidth options) (length buffer) wd)) = Some e"
  shows "getStreamableImage sharp supabaseClient imageData options w =
           (Inl e, w\<lparr>downloads := downloads w @ [(bucket imageData, path imageData)]\<rparr>)"
  using assms
  by (simp add: getStreamableImage_def loadImageFromSupabase_def Let_def call_def andThen_def)

text \<open>
  Claim C1, as stated, fails. For the image of 45 pixels and 200 bytes with a budget of
  140 bytes the transcoder requests the width 31, where the formula gives 32: the product
  45 times 0.7 is computed in doubles and falls short of 31.5. For the image of 1 pixel
  and 3 bytes with a budget of one byte the width rounds to 0, the library rejects it,
  and no image is produced.
\<close>

theorem resize_width_counterexample:
  "metadata scenarioSharp scenarioStrip = Returns \<lparr>width = Some 45\<rparr>
   \<and> int (length scenarioStrip) > maxSizeBytes smallBudgetOptions
   \<and> getStreamableImage scenarioSharp scenarioClient stripRequest smallBudgetOptions freshWorld
       = (Inr \<lparr>input = scenarioStrip, ops = [Rotate, Resize (Finite 31), Jpeg 60 None]\<rparr>,
          freshWorld\<lparr>downloads := [(''imgs'', ''strip.png'')]\<rparr>)
   \<and> specOutputWidth 45 (length scenarioStrip) (maxSizeBytes smallBudgetOptions)
         (maxSizeWidth smallBudgetOptions) = 32
   \<and> metadata scenarioSharp scenarioLine = Returns \<lparr>width = Some 1\<rparr>
   \<and> int (length scenarioLine) > maxSizeBytes oneByteOptions
   \<and> getStreamableImage scenarioSharp scenarioClient lineRequest oneByteOptions freshWorld
       = (Inl (Error ''Expected positive integer for width but received 0 of type number''),
          freshWorld\<lparr>downloads := [(''imgs'', ''line.jpg'')]\<rparr>)"
proof -
  have a: "int (length scenarioStrip) > maxSizeBytes smallBudgetOptions"
    by (simp add: scenarioStrip_def smallBudgetOptions_def bareOptions_def)
  have b: "specOutputWidth 45 (length scenarioStrip) (maxSizeBytes smallBudgetOptions)
         (maxSizeWidth smallBudgetOptions) = 32"
    by (simp add: scenarioStrip_def smallBudgetOptions_def bareOptions_def spec_strip)
  have c: "int (length scenarioLine) > maxSizeBytes oneByteOptions"
    by (simp add: scenarioLine_def oneByteOptions_def bareOptions_def)
  show ?thesis
    by (intro conjI strip_metadata a strip_transcoded b line_metadata c line_rejected)
qed

text \<open>
  Claim C1, amended. For an image that is fetched and read, with a byte length above
  \<open>maxSizeBytes\<close> or a width above \<open>maxSizeWidth\<close> (budgets, length and width
  positive whole numbers in the range of doubles), the width \<open>n\<close> handed to
  \<^verbatim>\<open>resize\<close> is \<^verbatim>\<open>Math.round\<close> of the product computed in doubles. It differs
  from the rounded exact product of the specification by at most one and is at most
  \<open>maxSizeWidth\<close>. If the library accepts \<open>n\<close>, the image is rotated, resized to
  \<open>n\<close>, optionally sharpened and encoded; if the library rejects \<open>n\<close>, the
  transcoder fails with the library's error.
\<close>

theorem resize_width_in_doubles:
  assumes "deriveImageTypeFromPath (path imageData) \<noteq> ''unknown''"
    and "supabaseClient (bucket imageData) (path imageData) = Returns r"
    and "dl_error r = None"
    and "dl_data r = Some buffer"
    and "metadata sharp buffer = Returns m"
    and "width m = Some wd"
    and "buffer \<noteq> []" and "length buffer < 2 ^ 53"
    and "0 < wd" and "wd < 2 ^ 51"
    and "0 < maxSizeBytes options" and "maxSizeBytes options < 2 ^ 53"
    and "0 < maxSizeWidth options" and "maxSizeWidth options < 2 ^ 51"
    and "int (length buffer) > maxSizeBytes options \<or> int wd > maxSizeWidth options"
    and "rejects sharp Rotate = None"
    and "truthy (sharpen options) \<longrightarrow> rejects sharp (Sharpen (9 / 10)) = None"
    and "rejects sharp (Jpeg (quality options) (progressive options)) = None"
  shows "\<exists>n. downscaledWidth (maxSizeBytes options) (maxSizeWidth options) (length buffer) wd
               = Finite (of_int n)
           \<and> n = \<lfloor>toDouble (of_nat wd *
                     min (min 1 (toDouble (of_int (maxSizeWidth options) / of_nat wd)))
                         (min 1 (toDouble (of_int (maxSizeBytes options)
                                            / of_nat (length buffer))))) + 1 / 2\<rfloor>
           \<and> \<bar>n - specOutputWidth wd (length buffer) (maxSizeBytes options)
                     (maxSizeWidth options)\<bar> \<le> 1
           \<and> n \<le> maxSizeWidth options
           \<and> (rejects sharp (Resize (Finite (of_int n))) = None \<longrightarrow>
                getStreamableImage sharp supabaseClient imageData options w =
                  (Inr \<lparr>input = buffer,
                        ops = [Rotate, Resize (Finite (of_int n))]
                              @ (if truthy (sharpen options) then [Sharpen (9 / 10)] else [])
                              @ [Jpeg (quality options) (progressive options)]\<rparr>,
                   w\<lparr>downloads := downloads w @ [(bucket imageData, path imageData)]\<rparr>)
                \<and> outputWidth wd
                      ([Rotate, Resize (Finite (of_int n))]
                       @ (if truthy (sharpen options) then [Sharpen (9 / 10)] else [])
                       @ [Jpeg (quality options) (progressive options)]) = Some n)
           \<and> (\<forall>e. rejects sharp (Resize (Finite (of_int n))) = Some e \<longrightarrow>
                getStreamableImage sharp supabaseClient imageData options w =
                  (Inl e, w\<lparr>downloads := downloads w @ [(bucket imageData, path imageData)]\<rparr>))"
proof -
  let ?mb = "maxSizeBytes options" and ?mW = "maxSizeWidth options"
  let ?B = "length buffer"
  let ?n = "\<lfloor>toDouble (of_nat wd *
                     min (min 1 (toDouble (of_int ?mW / of_nat wd)))
                         (min 1 (toDouble (of_int ?mb / of_nat ?B)))) + 1 / 2\<rfloor>"
  have B: "0 < ?B" using assms(7) by simp
  have wd0: "wd \<noteq> 0" using assms(9) by simp
  have fin: "downscaledWidth ?mb ?mW ?B wd = Finite (of_int ?n)"
    using B assms(9) by (rule downscaledWidth_finite)
  have near: "\<bar>?n - specOutputWidth wd ?B ?mb ?mW\<bar> \<le> 1"
    using B assms(9) assms(11) assms(13) assms(10) by (rule downscaledWidth_near)
  have le: "?n \<le> ?mW"
    using B assms(9) assms(11) assms(13) assms(14) by (rule downscaledWidth_le)
  have acc: "rejects sharp (Resize (Finite (of_int ?n))) = None \<longrightarrow>
                getStreamableImage sharp supabaseClient imageData options w =
                  (Inr \<lparr>input = buffer,
                        ops = [Rotate, Resize (Finite (of_int ?n))]
                              @ (if truthy (sharpen options) then [Sharpen (9 / 10)] else [])
                              @ [Jpeg (quality options) (progressive options)]\<rparr>,
                   w\<lparr>downloads := downloads w @ [(bucket imageData, path imageData)]\<rparr>)
                \<and> outputWidth wd
                      ([Rotate, Resize (Finite (of_int ?n))]
                       @ (if truthy (sharpen options) then [Sharpen (9 / 10)] else [])
                       @ [Jpeg (quality options) (progressive options)]) = Some ?n"
  proof
    assume ok: "rejects sharp (Resize (Finite (of_int ?n))) = None"
    then have ok': "rejects sharp (Resize (downscaledWidth ?mb ?mW ?B wd)) = None"
      by (simp only: fin)
    have "getStreamableImage sharp supabaseClient imageData options w =
           (Inr \<lparr>input = buffer,
                 ops = (if int ?B > ?mb \<or> int wd > ?mW
                        then [Rotate, Resize (downscaledWidth ?mb ?mW ?B wd)]
                        else [])
                       @ (if truthy (sharpen options) then [Sharpen (9 / 10)] else [])
                       @ [Jpeg (quality options) (progressive options)]\<rparr>,
            w\<lparr>downloads := downloads w @ [(bucket imageData, path imageData)]\<rparr>)"
      using assms(1-6) wd0 assms(16) ok' assms(17,18)
      by (intro getStreamableImage_accepted) simp_all
    with assms(15) fin
    have run: "getStreamableImage sharp supabaseClient imageData options w =
                  (Inr \<lparr>input = buffer,
                        ops = [Rotate, Resize (Finite (of_int ?n))]
                              @ (if truthy (sharpen options) then [Sharpen (9 / 10)] else [])
                              @ [Jpeg (quality options) (progressive options)]\<rparr>,
                   w\<lparr>downloads := downloads w @ [(bucket imageData, path imageData)]\<rparr>)"
      by simp
    have out: "outputWidth wd
                      ([Rotate, Resize (Finite (of_int ?n))]
                       @ (if truthy (sharpen options) then [Sharpen (9 / 10)] else [])
                       @ [Jpeg (quality options) (progressive options)]) = Some ?n"
      by (simp add: outputWidth_def)
    from run out show "getStreamableImage sharp supabaseClient imageData options w =
                  (Inr \<lparr>input = buffer,
                        ops = [Rotate, Resize (Finite (of_int ?n))]
                              @ (if truthy (sharpen options) then [Sharpen (9 / 10)] else [])
                              @ [Jpeg (quality options) (progressive options)]\<rparr>,
                   w\<lparr>downloads := downloads w @ [(bucket imageData, path imageData)]\<rparr>)
                \<and> outputWidth wd
                      ([Rotate, Resize (Finite (of_int ?n))]
                       @ (if truthy (sharpen options) then [Sharpen (9 / 10)] else [])
                       @ [Jpeg (quality options) (progressive options)]) = Some ?n"
      by (rule conjI)
  qed
  have rej: "\<forall>e. rejects sharp (Resize (Finite (of_int ?n))) = Some e \<longrightarrow>
                getStreamableImage sharp supabaseClient imageData options w =
                  (Inl e, w\<lparr>downloads := downloads w @ [(bucket imageData, path imageData)]\<rparr>)"
  proof (intro allI impI)
    fix e
    assume "rejects sharp (Resize (Finite (of_int ?n))) = Some e"
    then have "rejects sharp (Resize (downscaledWidth ?mb ?mW ?B wd)) = Some e"
      by (simp only: fin)
    with assms(1-6) wd0 assms(15,16)
    show "getStreamableImage sharp supabaseClient imageData options w =
            (Inl e, w\<lparr>downloads := downloads w @ [(bucket imageData, path imageData)]\<rparr>)"
      by (rule getStreamableImage_resize_rejected)
  qed
  show ?thesis
    by (rule exI[of _ ?n]) (intro conjI fin refl near le acc rej)
qed


theorem resize_width_in_doubles_witness:
  "deriveImageTypeFromPath (path dotRequest) \<noteq> ''unknown''
   \<and> scenarioClient (bucket dotRequest) (path dotRequest)
       = Returns \<lparr>dl_data = Some scenarioDot, dl_error = None\<rparr>
   \<and> metadata scenarioSharp scenarioDot = Returns \<lparr>width = Some 5\<rparr>
   \<and> scenarioDot \<noteq> []
   \<and> int (length scenarioDot) > maxSizeBytes oneByteOptions
   \<and> downscaledWidth (maxSizeBytes oneByteOptions) (maxSizeWidth oneByteOptions)
         (length scenarioDot) 5 = Finite 3
   \<and> specOutputWidth 5 (length scenarioDot) (maxSizeBytes oneByteOptions)
         (maxSizeWidth oneByteOptions) = 3
   \<and> (3 :: int) \<le> maxSizeWidth oneByteOptions
   \<and> getStreamableImage scenarioSharp scenarioClient dotRequest oneByteOptions freshWorld
       = (Inr \<lparr>input = scenarioDot, ops = [Rotate, Resize (Finite 3), Jpeg 60 None]\<rparr>,
          freshWorld\<lparr>downloads := [(''imgs'', ''dot.webp'')]\<rparr>)"
proof -
  let ?r = "\<lparr>dl_data = Some scenarioDot, dl_error = None\<rparr>"
  let ?m = "\<lparr>width = Some 5\<rparr>"
  have h1: "deriveImageTypeFromPath (path dotRequest) \<noteq> ''unknown''"
    by (simp add: dotRequest_def type_dot)
  have h2: "scenarioClient (bucket dotRequest) (path dotRequest) = Returns ?r"
    by (simp add: dotRequest_def scenarioClient_def)
  have h3: "dl_error ?r = None" by simp
  have h4: "dl_data ?r = Some scenarioDot" by simp
  have h6: "width ?m = Some 5" by simp
  have h7: "scenarioDot \<noteq> []" by (simp add: scenarioDot_def)
  have h8: "length scenarioDot < 2 ^ 53" by (simp add: scenarioDot_def)
  have h9: "0 < (5 :: nat)" by simp
  have h10: "(5 :: nat) < 2 ^ 51" by simp
  have h11: "0 < maxSizeBytes oneByteOptions" by (simp add: oneByteOptions_def bareOptions_def)
  have h12: "maxSizeBytes oneByteOptions < 2 ^ 53"
    by (simp add: oneByteOptions_def bareOptions_def)
  have h13: "0 < maxSizeWidth oneByteOptions" by (simp add: oneByteOptions_def bareOptions_def)
  have h14: "maxSizeWidth oneByteOptions < 2 ^ 51"
    by (simp add: oneByteOptions_def bareOptions_def)
  have c: "int (length scenarioDot) > maxSizeBytes oneByteOptions"
    by (simp add: scenarioDot_def oneByteOptions_def bareOptions_def)
  then have h15: "int (length scenarioDot) > maxSizeBytes oneByteOptions
                    \<or> int 5 > maxSizeWidth oneByteOptions" ..
  have h16: "rejects scenarioSharp Rotate = None"
    by (simp add: scenarioSharp_def scenarioRejects_def)
  have h17: "truthy (sharpen oneByteOptions)
               \<longrightarrow> rejects scenarioSharp (Sharpen (9 / 10)) = None"
    by (simp add: scenarioSharp_def scenarioRejects_def)
  have h18: "rejects scenarioSharp
               (Jpeg (quality oneByteOptions) (progressive oneByteOptions)) = None"
    by (simp add: scenarioSharp_def scenarioRejects_def oneByteOptions_def bareOptions_def)
  have wdt: "downscaledWidth (maxSizeBytes oneByteOptions) (maxSizeWidth oneByteOptions)
         (length scenarioDot) 5 = Finite 3"
    by (simp add: oneByteOptions_def bareOptions_def scenarioDot_def width_dot)
  have sp: "specOutputWidth 5 (length scenarioDot) (maxSizeBytes oneByteOptions)
         (maxSizeWidth oneByteOptions) = 3"
    by (simp add: oneByteOptions_def bareOptions_def scenarioDot_def spec_dot)
  from resize_width_in_doubles[where supabaseClient = scenarioClient
         and imageData = dotRequest and sharp = scenarioSharp and options = oneByteOptions
         and w = freshWorld and buffer = scenarioDot and r = ?r and m = ?m and wd = 5,
         OF h1 h2 h3 h4 dot_metadata h6 h7 h8 h9 h10 h11 h12 h13 h14 h15 h16 h17 h18]
  obtain n where
    fin: "downscaledWidth (maxSizeBytes oneByteOptions) (maxSizeWidth oneByteOptions)
            (length scenarioDot) 5 = Finite (of_int n)"
    and le: "n \<le> maxSizeWidth oneByteOptions"
    and acc: "rejects scenarioSharp (Resize (Finite (of_int n))) = None \<longrightarrow>
                getStreamableImage scenarioSharp scenarioClient dotRequest oneByteOptions
                  freshWorld =
                  (Inr \<lparr>input = scenarioDot,
                        ops = [Rotate, Resize (Finite (of_int n))]
                              @ (if truthy (sharpen oneByteOptions) then [Sharpen (9 / 10)]
                                 else [])
                              @ [Jpeg (quality oneByteOptions) (progressive oneByteOptions)]\<rparr>,
                   freshWorld\<lparr>downloads := downloads freshWorld
                                 @ [(bucket dotRequest, path dotRequest)]\<rparr>)
                \<and> outputWidth 5
                      ([Rotate, Resize (Finite (of_int n))]
                       @ (if truthy (sharpen oneByteOptions) then [Sharpen (9 / 10)] else [])
                       @ [Jpeg (quality oneByteOptions) (progressive oneByteOptions)]) = Some n"
    by (elim exE conjE)
  from fin wdt have "(of_int n :: rat) = of_int 3" by simp
  then have n: "n = 3" by (simp only: of_int_eq_iff)
  have ok: "rejects scenarioSharp (Resize (Finite (of_int (3 :: int)))) = None"
    by (simp add: scenarioSharp_def scenarioRejects_def positiveWhole_def)
  from le n have le3: "(3 :: int) \<le> maxSizeWidth oneByteOptions" by simp
  from acc[unfolded n] ok
  have run: "getStreamableImage scenarioSharp scenarioClient dotRequest oneByteOptions freshWorld
       = (Inr \<lparr>input = scenarioDot, ops = [Rotate, Resize (Finite 3), Jpeg 60 None]\<rparr>,
          freshWorld\<lparr>downloads := [(''imgs'', ''dot.webp'')]\<rparr>)"
    by (simp add: oneByteOptions_def bareOptions_def truthy_def dotRequest_def freshWorld_def)
  show ?thesis by (intro conjI h1 h2 dot_metadata h7 c wdt sp le3 run)
qed

text \<open>
  Claim C5. When the byte length of the fetched image is at most \<open>maxSizeBytes\<close> and
  its pixel width at most \<open>maxSizeWidth\<close>, the transcoder requests no resize: the only
  operations are the optional sharpening and the JPEG encoding with the quality and the
  progressive flag of the options, so the width stays the original one.
\<close>

theorem within_budget_no_resize:
  assumes "getStreamableImage sharp supabaseClient imageData options w = (Inr img, w')"
    and "metadata sharp (input img) = Returns m"
    and "width m = Some wd"
    and "int (length (input img)) \<le> maxSizeBytes options"
    and "int wd \<le> maxSizeWidth options"
  shows "ops img =
           (if truthy (sharpen options) then [Sharpen (9 / 10)] else [])
           @ [Jpeg (quality options) (progressive options)]
       \<and> (\<forall>n. Resize n \<notin> set (ops img))
       \<and> outputWidth wd (ops img) = Some (int wd)"
proof -
  from getStreamableImage_Inr[OF assms(1-3)] assms(4,5)
  have plan: "ops img =
        (if truthy (sharpen options) then [Sharpen (9 / 10)] else [])
        @ [Jpeg (quality options) (progressive options)]"
    by simp
  then show ?thesis by (simp add: outputWidth_def)
qed

theorem within_budget_no_resize_witness:
  "getStreamableImage scenarioSharp scenarioClient iconRequest thumbnailOptions freshWorld
     = (Inr \<lparr>input = scenarioIcon, ops = [Jpeg 60 (Some True)]\<rparr>,
        freshWorld\<lparr>downloads := [(''imgs'', ''icon.gif'')]\<rparr>)
   \<and> metadata scenarioSharp scenarioIcon = Returns \<lparr>width = Some 100\<rparr>
   \<and> int (length scenarioIcon) \<le> maxSizeBytes thumbnailOptions
   \<and> int 100 \<le> maxSizeWidth thumbnailOptions
   \<and> (\<forall>n. Resize n \<notin> set [Jpeg 60 (Some True)])
   \<and> outputWidth 100 [Jpeg 60 (Some True)] = Some 100"
proof -
  have h2: "metadata scenarioSharp (input \<lparr>input = scenarioIcon, ops = [Jpeg 60 (Some True)]\<rparr>)
            = Returns \<lparr>width = Some 100\<rparr>"
    by (simp add: icon_metadata)
  have h3: "width \<lparr>width = Some 100\<rparr> = Some 100" by simp
  have h4: "int (length (input \<lparr>input = scenarioIcon, ops = [Jpeg 60 (Some True)]\<rparr>))
              \<le> maxSizeBytes thumbnailOptions"
    by (simp add: scenarioIcon_def thumbnailOptions_def hundredKbs_def oneKbInBytes_def)
  have h5: "int 100 \<le> maxSizeWidth thumbnailOptions"
    by (simp add: thumbnailOptions_def)
  from within_budget_no_resize[OF icon_transcoded h2 h3 h4 h5] icon_transcoded icon_metadata
    h4 h5
  show ?thesis by (simp add: thumbnailOptions_def truthy_def outputWidth_def)
qed

text \<open>
  Claim C9. For an image that is fetched and read, the rotation by the embedded
  orientation is requested exactly when the resize is: when the byte length exceeds
  \<open>maxSizeBytes\<close> or the width exceeds \<open>maxSizeWidth\<close>. Every image the transcoder
  returns has the rotation among its operations exactly in that case, and the transcoder
  does return an image whenever the library accepts the operations requested: with the
  rotation when a budget is exceeded, without it when the image is within both.
\<close>

theorem rotate_iff_resize:
  assumes "deriveImageTypeFromPath (path imageData) \<noteq> ''unknown''"
    and "supabaseClient (bucket imageData) (path imageData) = Returns r"
    and "dl_error r = None"
    and "dl_data r = Some buffer"
    and "metadata sharp buffer = Returns m"
    and "width m = Some wd"
    and "wd \<noteq> 0"
  shows "(\<forall>img w'. getStreamableImage sharp supabaseClient imageData options w = (Inr img, w')
            \<longrightarrow> (Rotate \<in> set (ops img)) =
                  (int (length buffer) > maxSizeBytes options \<or> int wd > maxSizeWidth options)
              \<and> (\<exists>n. Resize n \<in> set (ops img)) =
                  (int (length buffer) > maxSizeBytes options \<or> int wd > maxSizeWidth options))
       \<and> ((int (length buffer) > maxSizeBytes options \<or> int wd > maxSizeWidth options
              \<longrightarrow> rejects sharp Rotate = None
                  \<and> rejects sharp (Resize (downscaledWidth (maxSizeBytes options)
                                            (maxSizeWidth options) (length buffer) wd)) = None)
            \<and> (truthy (sharpen options) \<longrightarrow> rejects sharp (Sharpen (9 / 10)) = None)
            \<and> rejects sharp (Jpeg (quality options) (progressive options)) = None
           \<longrightarrow> (\<exists>img. getStreamableImage sharp supabaseClient imageData options w =
                         (Inr img,
                          w\<lparr>downloads := downloads w @ [(bucket imageData, path imageData)]\<rparr>)
                     \<and> input img = buffer
                     \<and> (Rotate \<in> set (ops img)) =
                         (int (length buffer) > maxSizeBytes options
                            \<or> int wd > maxSizeWidth options)))"
proof -
  let ?cond = "int (length buffer) > maxSizeBytes options \<or> int wd > maxSizeWidth options"
  have first: "\<forall>img w'. getStreamableImage sharp supabaseClient imageData options w = (Inr img, w')
            \<longrightarrow> (Rotate \<in> set (ops img)) = ?cond \<and> (\<exists>n. Resize n \<in> set (ops img)) = ?cond"
  proof (intro allI impI)
    fix img w'
    assume run: "getStreamableImage sharp supabaseClient imageData options w = (Inr img, w')"
    from getStreamableImage_input[OF run assms(2,4)] have i: "input img = buffer" .
    with assms(5) have md: "metadata sharp (input img) = Returns m" by simp
    from getStreamableImage_Inr[OF run md assms(6)] i
    show "(Rotate \<in> set (ops img)) = ?cond \<and> (\<exists>n. Resize n \<in> set (ops img)) = ?cond"
      by auto
  qed
  have second: "(?cond \<longrightarrow> rejects sharp Rotate = None
                  \<and> rejects sharp (Resize (downscaledWidth (maxSizeBytes options)
                                            (maxSizeWidth options) (length buffer) wd)) = None)
            \<and> (truthy (sharpen options) \<longrightarrow> rejects sharp (Sharpen (9 / 10)) = None)
            \<and> rejects sharp (Jpeg (quality options) (progressive options)) = None
           \<longrightarrow> (\<exists>img. getStreamableImage sharp supabaseClient imageData options w =
                         (Inr img,
                          w\<lparr>downloads := downloads w @ [(bucket imageData, path imageData)]\<rparr>)
                     \<and> input img = buffer
                     \<and> (Rotate \<in> set (ops img)) = ?cond)"
  proof
    assume acc: "(?cond \<longrightarrow> rejects sharp Rotate = None
                  \<and> rejects sharp (Resize (downscaledWidth (maxSizeBytes options)
                                            (maxSizeWidth options) (length buffer) wd)) = None)
            \<and> (truthy (sharpen options) \<longrightarrow> rejects sharp (Sharpen (9 / 10)) = None)
            \<and> rejects sharp (Jpeg (quality options) (progressive options)) = None"
    let ?img = "\<lparr>input = buffer,
                 ops = (if ?cond
                        then [Rotate,
                              Resize (downscaledWidth (maxSizeBytes options)
                                        (maxSizeWidth options) (length buffer) wd)]
                        else [])
                       @ (if truthy (sharpen options) then [Sharpen (9 / 10)] else [])
                       @ [Jpeg (quality options) (progressive options)]\<rparr>"
    have run: "getStreamableImage sharp supabaseClient imageData options w =
           (Inr ?img, w\<lparr>downloads := downloads w @ [(bucket imageData, path imageData)]\<rparr>)"
      using assms acc by (intro getStreamableImage_accepted) simp_all
    have "input ?img = buffer \<and> (Rotate \<in> set (ops ?img)) = ?cond" by simp
    with run show "\<exists>img. getStreamableImage sharp supabaseClient imageData options w =
                         (Inr img,
                          w\<lparr>downloads := downloads w @ [(bucket imageData, path imageData)]\<rparr>)
                     \<and> input img = buffer
                     \<and> (Rotate \<in> set (ops img)) = ?cond"
      by (intro exI[of _ ?img] conjI) simp_all
  qed
  show ?thesis by (intro conjI first second)
qed


theorem rotate_iff_resize_witness:
  "deriveImageTypeFromPath (path photoRequest) \<noteq> ''unknown''
   \<and> scenarioClient (bucket photoRequest) (path photoRequest)
       = Returns \<lparr>dl_data = Some scenarioPhoto, dl_error = None\<rparr>
   \<and> metadata scenarioSharp scenarioPhoto = Returns \<lparr>width = Some 3000\<rparr>
   \<and> getStreamableImage scenarioSharp scenarioClient photoRequest thumbnailOptions freshWorld
       = (Inr \<lparr>input = scenarioPhoto, ops = [Rotate, Resize (Finite 120), Jpeg 60 (Some True)]\<rparr>,
          freshWorld\<lparr>downloads := [(''imgs'', ''photo.PNG'')]\<rparr>)
   \<and> Rotate \<in> set [Rotate, Resize (Finite 120), Jpeg 60 (Some True)]
   \<and> (int (length scenarioPhoto) > maxSizeBytes thumbnailOptions
        \<or> int 3000 > maxSizeWidth thumbnailOptions)
   \<and> deriveImageTypeFromPath (path iconRequest) \<noteq> ''unknown''
   \<and> scenarioClient (bucket iconRequest) (path iconRequest)
       = Returns \<lparr>dl_data = Some scenarioIcon, dl_error = None\<rparr>
   \<and> metadata scenarioSharp scenarioIcon = Returns \<lparr>width = Some 100\<rparr>
   \<and> getStreamableImage scenarioSharp scenarioClient iconRequest thumbnailOptions freshWorld
       = (Inr \<lparr>input = scenarioIcon, ops = [Jpeg 60 (Some True)]\<rparr>,
          freshWorld\<lparr>downloads := [(''imgs'', ''icon.gif'')]\<rparr>)
   \<and> Rotate \<notin> set [Jpeg 60 (Some True)]
   \<and> \<not> (int (length scenarioIcon) > maxSizeBytes thumbnailOptions
          \<or> int 100 > maxSizeWidth thumbnailOptions)"
proof -
  let ?rp = "\<lparr>dl_data = Some scenarioPhoto, dl_error = None\<rparr>"
  let ?ri = "\<lparr>dl_data = Some scenarioIcon, dl_error = None\<rparr>"
  let ?mp = "\<lparr>width = Some 3000\<rparr>"
  let ?mi = "\<lparr>width = Some 100\<rparr>"
  have p1: "deriveImageTypeFromPath (path photoRequest) \<noteq> ''unknown''"
    by (simp add: photoRequest_def type_photo)
  have p2: "scenarioClient (bucket photoRequest) (path photoRequest) = Returns ?rp"
    by (simp add: photoRequest_def scenarioClient_def)
  have p3: "dl_error ?rp = None" and p4: "dl_data ?rp = Some scenarioPhoto" by simp_all
  have p6: "width ?mp = Some 3000" and p7: "(3000 :: nat) \<noteq> 0" by simp_all
  have i1: "deriveImageTypeFromPath (path iconRequest) \<noteq> ''unknown''"
    by (simp add: iconRequest_def type_icon)
  have i2: "scenarioClient (bucket iconRequest) (path iconRequest) = Returns ?ri"
    by (simp add: iconRequest_def scenarioClient_def)
  have i3: "dl_error ?ri = None" and i4: "dl_data ?ri = Some scenarioIcon" by simp_all
  have i6: "width ?mi = Some 100" and i7: "(100 :: nat) \<noteq> 0" by simp_all
  note rp = rotate_iff_resize[where supabaseClient = scenarioClient and imageData = photoRequest
      and sharp = scenarioSharp and options = thumbnailOptions and w = freshWorld
      and buffer = scenarioPhoto and r = ?rp and m = ?mp and wd = 3000,
      OF p1 p2 p3 p4 photo_metadata p6 p7, THEN conjunct1, THEN spec, THEN spec, THEN mp,
      OF photo_transcoded, THEN conjunct1]
  note ri = rotate_iff_resize[where supabaseClient = scenarioClient and imageData = iconRequest
      and sharp = scenarioSharp and options = thumbnailOptions and w = freshWorld
      and buffer = scenarioIcon and r = ?ri and m = ?mi and wd = 100,
      OF i1 i2 i3 i4 icon_metadata i6 i7, THEN conjunct1, THEN spec, THEN spec, THEN mp,
      OF icon_transcoded, THEN conjunct1]
  have a: "Rotate \<in> set [Rotate, Resize (Finite 120), Jpeg 60 (Some True)]" by simp
  with rp have b: "int (length scenarioPhoto) > maxSizeBytes thumbnailOptions
        \<or> int 3000 > maxSizeWidth thumbnailOptions"
    by simp
  have c: "Rotate \<notin> set [Jpeg 60 (Some True)]" by simp
  with ri have d: "\<not> (int (length scenarioIcon) > maxSizeBytes thumbnailOptions
          \<or> int 100 > maxSizeWidth thumbnailOptions)"
    by simp
  show ?thesis
    by (intro conjI p1 p2 photo_metadata photo_transcoded a b i1 i2 icon_metadata
          icon_transcoded c d)
qed

section \<open>Responder: what a request is answered with\<close>

lemma type_empty: "deriveImageTypeFromPath [] = ''unknown''"
  by (simp add: deriveImageTypeFromPath_def toLowerCase_def endsWith_def)

lemma loadImageSafely_rejected:
  assumes "loadImageSafely_try sharp supabaseClient imageData options w = (Rejected e, w')"
  shows "loadImageSafely sharp supabaseClient imageData options w
           = loadImageSafely_catch options e w'"
  using assms by (simp add: loadImageSafely_def)

lemma loadImageSafely_streams:
  assumes "bucket imageData \<noteq> []"
    and "getStreamableImage sharp supabaseClient imageData options w = (Inr img, w1)"
  shows "loadImageSafely sharp supabaseClient imageData options w
           = pipeInto (emits sharp img)
               (w1\<lparr>apiRes := apiRes w @
                  [WriteHead 200
                     [(''Content-Type'', HStr ''image/jpg''),
                      (''Cache-control'',
                         stringPlusNumber ''max-age='' (standardCacheTime options))]]\<rparr>)"
proof -
  let ?w2 = "w1\<lparr>apiRes := apiRes w @
                  [WriteHead 200
                     [(''Content-Type'', HStr ''image/jpg''),
                      (''Cache-control'',
                         stringPlusNumber ''max-age='' (standardCacheTime options))]]\<rparr>"
  have "deriveImageTypeFromPath (path imageData) \<noteq> ''unknown''"
    using assms(2) getStreamableImage_unknown[of imageData sharp supabaseClient options w]
    by auto
  then have p: "path imageData \<noteq> []" using type_empty by auto
  have keep: "apiRes w1 = apiRes w"
    using getStreamableImage_keeps[of sharp supabaseClient imageData options w] assms(2)
    by simp
  from assms p keep
  have t: "loadImageSafely_try sharp supabaseClient imageData options w
             = pipeInto (emits sharp img) ?w2"
    by (simp add: loadImageSafely_try_def)
  obtain pr w3 where pw: "pipeInto (emits sharp img) ?w2 = (pr, w3)"
    by (cases "pipeInto (emits sharp img) ?w2")
  have nr: "pr \<noteq> Rejected e" for e
    using pipeInto_not_rejected[of "emits sharp img" ?w2 e] pw by simp
  have "(case (pr, w3) of (Rejected e, w') \<Rightarrow> loadImageSafely_catch options e w'
              | (p, w') \<Rightarrow> (p, w')) = (pr, w3)"
  proof (cases pr)
    case (Rejected x)
    with nr[of x] show ?thesis by simp
  qed simp_all
  with t pw show ?thesis by (simp add: loadImageSafely_def)
qed

lemma catch_answers:
  assumes "callbackReturns options e"
  shows "fst (loadImageSafely_catch options e w) = Fulfilled ()
       \<and> apiRes (snd (loadImageSafely_catch options e w)) =
           apiRes w @
             (if truthy (useTransparentImageFallback options)
              then [WriteHead (if includesStr (errorToString e) ''Image not found''
                               then 404 else 500)
                      [(''Content-Type'', HStr ''image/gif''),
                       (''Content-Length'', HNum (int (length TRANSPARENT_IMAGE_GIF_BYTES))),
                       (''Cache-control'', HStr ''no-cache'')],
                    EndWith TRANSPARENT_IMAGE_GIF_BYTES ''binary'']
              else if includesStr (errorToString e) ''Image not found''
                   then [Status 404, Send ''Image not found'']
                   else [Status 500, Send ''Internal server error''])"
  using assms
  by (simp add: loadImageSafely_catch_def callbackReturns_def Let_def split: option.splits)

lemma catch_throws:
  assumes "onError options = Some callback" and "callback e = Some e'"
  shows "loadImageSafely_catch options e w = (Rejected e', w\<lparr>reported := reported w @ [e]\<rparr>)"
  using assms by (simp add: loadImageSafely_catch_def Let_def)

lemma catch_no_success_head:
  assumes "apiRes (snd (loadImageSafely_catch options e w)) = apiRes w @ new"
  shows "WriteHead 200 hs \<notin> set new"
proof (cases "callbackReturns options e")
  case True
  from catch_answers[OF True, of w] assms show ?thesis by (auto split: if_splits)
next
  case False
  then obtain callback e' where "onError options = Some callback" and "callback e = Some e'"
    by (auto simp: callbackReturns_def split: option.splits)
  from catch_throws[OF this, of w] assms show ?thesis by simp
qed

lemma missing_rejected:
  "loadImageSafely_try scenarioSharp scenarioClient missingRequest options freshWorld
     = (Rejected (Error (''Image not found > '' @ JSON_stringify_info ''imgs'' ''gone.jpg'')),
        freshWorld\<lparr>downloads := [(''imgs'', ''gone.jpg'')]\<rparr>)"
  by (simp add: loadImageSafely_try_def getStreamableImage_def loadImageFromSupabase_def
        Let_def missingRequest_def type_gone scenarioClient_def freshWorld_def)





text \<open>
  A callback that throws leaves the \<^verbatim>\<open>catch\<close> block before anything is written: the
  call is rejected with what the callback threw.
\<close>

lemma throwing_callback_nothing_written:
  "loadImageSafely scenarioSharp scenarioClient missingRequest throwingOptions freshWorld
     = (Rejected (Error ''logger unavailable''),
        \<lparr>downloads = [(''imgs'', ''gone.jpg'')], apiRes = [],
         reported = [Error (''Image not found > '' @ JSON_stringify_info ''imgs'' ''gone.jpg'')],
         uncaught = []\<rparr>)"
proof -
  have o: "onError throwingOptions = Some throwingCallback"
    by (simp add: throwingOptions_def)
  have c: "throwingCallback e = Some (Error ''logger unavailable'')" for e
    by (simp add: throwingCallback_def)
  show ?thesis
    unfolding loadImageSafely_rejected[OF missing_rejected] catch_throws[OF o c]
    by (simp add: freshWorld_def)
qed






lemma loadImageSafely_cases:
  "(\<exists>e w'. loadImageSafely_try sharp supabaseClient imageData options w = (Rejected e, w'))
   \<or> (\<exists>img w1. bucket imageData \<noteq> []
          \<and> getStreamableImage sharp supabaseClient imageData options w = (Inr img, w1))"
proof (cases "bucket imageData = [] \<or> path imageData = []")
  case True
  then show ?thesis by (simp add: loadImageSafely_try_def)
next
  case False
  obtain r w1 where g: "getStreamableImage sharp supabaseClient imageData options w = (r, w1)"
    by (cases "getStreamableImage sharp supabaseClient imageData options w")
  show ?thesis
  proof (cases r)
    case (Inl e)
    with False g show ?thesis by (simp add: loadImageSafely_try_def)
  next
    case (Inr img)
    with False g show ?thesis by simp
  qed
qed

lemma photo_answered:
  "loadImageSafely scenarioSharp scenarioClient photoRequest thumbnailOptions freshWorld
     = (Fulfilled (),
        \<lparr>downloads = [(''imgs'', ''photo.PNG'')],
         apiRes = [WriteHead 200
                     [(''Content-Type'', HStr ''image/jpg''),
                      (''Cache-control'', HStr ''max-age=432000'')],
                   PipeWrite [255, 216], PipeEnd],
         reported = [], uncaught = []\<rparr>)"
proof -
  have b: "bucket photoRequest \<noteq> []" by (simp add: photoRequest_def)
  have t: "standardCacheTime thumbnailOptions = Some STANDARD_CACHE_TIME"
    by (simp add: thumbnailOptions_def)
  show ?thesis
    unfolding loadImageSafely_streams[OF b photo_transcoded]
    by (simp add: t stringPlusNumber_def cache_time_string scenarioSharp_def scenarioEmits_def
          freshWorld_def)
qed

lemma icon_transcoded_bare:
  "getStreamableImage scenarioSharp scenarioClient iconRequest bareOptions freshWorld
     = (Inr \<lparr>input = scenarioIcon, ops = [Jpeg 60 None]\<rparr>,
        freshWorld\<lparr>downloads := [(''imgs'', ''icon.gif'')]\<rparr>)"
  by (simp add: scenario_defs iconRequest_def type_icon scenarioIcon_def bareOptions_def)

lemma icon_answered_bare:
  "loadImageSafely scenarioSharp scenarioClient iconRequest bareOptions freshWorld
     = (Fulfilled (),
        \<lparr>downloads = [(''imgs'', ''icon.gif'')],
         apiRes = [WriteHead 200
                     [(''Content-Type'', HStr ''image/jpg''),
                      (''Cache-control'', HStr ''max-age=undefined'')],
                   PipeWrite [255, 216], PipeEnd],
         reported = [], uncaught = []\<rparr>)"
proof -
  have b: "bucket iconRequest \<noteq> []" by (simp add: iconRequest_def)
  have t: "standardCacheTime bareOptions = None" by (simp add: bareOptions_def)
  show ?thesis
    unfolding loadImageSafely_streams[OF b icon_transcoded_bare]
    by (simp add: t stringPlusNumber_def scenarioSharp_def scenarioEmits_def freshWorld_def)
qed

text \<open>
  Claim C4. With options that leave out \<open>standardCacheTime\<close> a successful request is
  answered with status 200 and \<^verbatim>\<open>Content-Type: image/jpg\<close>, and the cache header
  reads \<^verbatim>\<open>max-age=undefined\<close>: the field is put into the header as it is, and the
  5-day constant reaches the header through the two presets only. The same request with
  the thumbnail preset is answered with \<^verbatim>\<open>max-age=432000\<close>.
\<close>

theorem omitted_cache_time_header:
  "standardCacheTime bareOptions = None
   \<and> loadImageSafely scenarioSharp scenarioClient iconRequest bareOptions freshWorld
       = (Fulfilled (),
          \<lparr>downloads = [(''imgs'', ''icon.gif'')],
           apiRes = [WriteHead 200
                       [(''Content-Type'', HStr ''image/jpg''),
                        (''Cache-control'', HStr ''max-age=undefined'')],
                     PipeWrite [255, 216], PipeEnd],
           reported = [], uncaught = []\<rparr>)
   \<and> stringPlusNumber ''max-age='' (Some STANDARD_CACHE_TIME) = HStr ''max-age=432000''
   \<and> HStr ''max-age=undefined'' \<noteq> HStr ''max-age=432000''
   \<and> standardCacheTime thumbnailOptions = Some STANDARD_CACHE_TIME
   \<and> apiRes (snd (loadImageSafely scenarioSharp scenarioClient iconRequest thumbnailOptions
                    freshWorld))
       = [WriteHead 200
            [(''Content-Type'', HStr ''image/jpg''),
             (''Cache-control'', HStr ''max-age=432000'')],
          PipeWrite [255, 216], PipeEnd]"
proof -
  have a: "standardCacheTime bareOptions = None" by (simp add: bareOptions_def)
  have c: "stringPlusNumber ''max-age='' (Some STANDARD_CACHE_TIME) = HStr ''max-age=432000''"
    by (simp add: stringPlusNumber_def cache_time_string)
  have d: "HStr ''max-age=undefined'' \<noteq> HStr ''max-age=432000''" by simp
  have e: "standardCacheTime thumbnailOptions = Some STANDARD_CACHE_TIME"
    by (simp add: thumbnailOptions_def)
  have b: "bucket iconRequest \<noteq> []" by (simp add: iconRequest_def)
  have f: "apiRes (snd (loadImageSafely scenarioSharp scenarioClient iconRequest thumbnailOptions
                    freshWorld))
       = [WriteHead 200
            [(''Content-Type'', HStr ''image/jpg''),
             (''Cache-control'', HStr ''max-age=432000'')],
          PipeWrite [255, 216], PipeEnd]"
    unfolding loadImageSafely_streams[OF b icon_transcoded]
    by (simp add: e c scenarioSharp_def scenarioEmits_def freshWorld_def)
  show ?thesis by (intro conjI a icon_answered_bare c d e f)
qed

text \<open>
  Claim C6. For a path whose type is unknown the transcoder fails with the error
  \<^verbatim>\<open>Unknown image type\<close> and leaves the world as it was: no download has been issued.
  The responder, called with such a path, issues no download either.
\<close>

theorem unknown_type_no_download:
  assumes "deriveImageTypeFromPath (path imageData) = ''unknown''"
  shows "getStreamableImage sharp supabaseClient imageData options w
           = (Inl (Error (''Unknown image type: '' @ path imageData)), w)
       \<and> (bucket imageData \<noteq> [] \<and> path imageData \<noteq> [] \<longrightarrow>
            loadImageSafely_try sharp supabaseClient imageData options w
              = (Rejected (Error (''Unknown image type: '' @ path imageData)), w))
       \<and> downloads (snd (loadImageSafely sharp supabaseClient imageData options w))
           = downloads w"
proof -
  note g = getStreamableImage_unknown[OF assms, of sharp supabaseClient options w]
  have t: "bucket imageData \<noteq> [] \<and> path imageData \<noteq> [] \<longrightarrow>
            loadImageSafely_try sharp supabaseClient imageData options w
              = (Rejected (Error (''Unknown image type: '' @ path imageData)), w)"
    by (simp add: loadImageSafely_try_def g)
  have "\<exists>e. loadImageSafely_try sharp supabaseClient imageData options w = (Rejected e, w)"
    by (simp add: loadImageSafely_try_def g)
  then obtain e where "loadImageSafely_try sharp supabaseClient imageData options w
                         = (Rejected e, w)" ..
  then have d: "downloads (snd (loadImageSafely sharp supabaseClient imageData options w))
                  = downloads w"
    by (simp add: loadImageSafely_rejected catch_keeps_downloads)
  show ?thesis by (intro conjI g t d)
qed

theorem unknown_type_no_download_witness:
  "deriveImageTypeFromPath (path bmpRequest) = ''unknown''
   \<and> bucket bmpRequest \<noteq> [] \<and> path bmpRequest \<noteq> []
   \<and> loadImageSafely_try scenarioSharp scenarioClient bmpRequest thumbnailOptions freshWorld
       = (Rejected (Error ''Unknown image type: doc.bmp''), freshWorld)
   \<and> downloads (snd (loadImageSafely scenarioSharp scenarioClient bmpRequest thumbnailOptions
                       freshWorld)) = []"
proof -
  have h: "deriveImageTypeFromPath (path bmpRequest) = ''unknown''"
    by (simp add: bmpRequest_def type_bmp)
  have b: "bucket bmpRequest \<noteq> []" and p: "path bmpRequest \<noteq> []"
    by (simp_all add: bmpRequest_def)
  note r = unknown_type_no_download[OF h, of scenarioSharp scenarioClient thumbnailOptions
             freshWorld]
  from r[THEN conjunct2, THEN conjunct1] b p
  have t: "loadImageSafely_try scenarioSharp scenarioClient bmpRequest thumbnailOptions freshWorld
       = (Rejected (Error ''Unknown image type: doc.bmp''), freshWorld)"
    by (simp add: bmpRequest_def)
  from r[THEN conjunct2, THEN conjunct2]
  have d: "downloads (snd (loadImageSafely scenarioSharp scenarioClient bmpRequest thumbnailOptions
                       freshWorld)) = []"
    by (simp add: freshWorld_def)
  show ?thesis by (intro conjI h b p t d)
qed



text \<open>
  Claim C10. If the calls that a request adds to the response contain the success head
  (\<^verbatim>\<open>writeHead\<close> with status 200), then the head is the first of them and every later
  call streams the image: no status, no message, no second head and no fallback body
  follows. The \<^verbatim>\<open>try\<close> block was not rejected then, so the \<^verbatim>\<open>catch\<close> block did not
  run and the callback was not called. The promise of the streaming phase is never
  rejected, whatever the stream emits.
\<close>

theorem no_error_response_after_success_head:
  assumes "apiRes (snd (loadImageSafely sharp supabaseClient imageData options w))
             = apiRes w @ new"
    and "WriteHead 200 hs \<in> set new"
  shows "(\<exists>cs. new = WriteHead 200 hs # cs \<and> list_all streamCall cs)
       \<and> reported (snd (loadImageSafely sharp supabaseClient imageData options w))
           = reported w
       \<and> (\<forall>e. fst (loadImageSafely_try sharp supabaseClient imageData options w)
                 \<noteq> Rejected e)
       \<and> (\<forall>evs w0 e. fst (pipeInto evs w0) \<noteq> Rejected e)"
proof -
  from loadImageSafely_cases[of sharp supabaseClient imageData options w]
  show ?thesis
  proof (elim disjE exE conjE)
    fix e w'
    assume t: "loadImageSafely_try sharp supabaseClient imageData options w = (Rejected e, w')"
    from try_rejected[OF t] have "apiRes w' = apiRes w" by simp
    with loadImageSafely_rejected[OF t] assms(1)
    have "apiRes (snd (loadImageSafely_catch options e w')) = apiRes w' @ new" by simp
    from catch_no_success_head[OF this] assms(2) show ?thesis by simp
  next
    fix img w1
    assume b: "bucket imageData \<noteq> []"
      and g: "getStreamableImage sharp supabaseClient imageData options w = (Inr img, w1)"
    let ?head = "WriteHead 200
                   [(''Content-Type'', HStr ''image/jpg''),
                    (''Cache-control'',
                       stringPlusNumber ''max-age='' (standardCacheTime options))]"
    let ?w2 = "w1\<lparr>apiRes := apiRes w @ [?head]\<rparr>"
    note run = loadImageSafely_streams[OF b g]
    from pipeInto_calls[of "emits sharp img" ?w2] obtain cs where
      c: "apiRes (snd (pipeInto (emits sharp img) ?w2)) = apiRes ?w2 @ cs"
      and l: "list_all streamCall cs"
      by (elim exE conjE)
    from c run assms(1) have new: "new = ?head # cs" by simp
    from l have "WriteHead 200 hs \<notin> set cs"
      by (auto simp: list_all_iff streamCall_def)
    with assms(2) new have "?head = WriteHead 200 hs" by simp
    with new l have first: "\<exists>cs. new = WriteHead 200 hs # cs \<and> list_all streamCall cs"
      by simp
    have "reported w1 = reported w"
      using getStreamableImage_keeps[of sharp supabaseClient imageData options w] g by simp
    with run pipeInto_keeps[of "emits sharp img" ?w2]
    have second: "reported (snd (loadImageSafely sharp supabaseClient imageData options w))
                    = reported w"
      by simp
    have p: "path imageData \<noteq> []"
      using g getStreamableImage_unknown[of imageData sharp supabaseClient options w]
        type_empty by auto
    have k: "apiRes w1 = apiRes w"
      using getStreamableImage_keeps[of sharp supabaseClient imageData options w] g by simp
    from b p g k
    have "loadImageSafely_try sharp supabaseClient imageData options w
            = pipeInto (emits sharp img) ?w2"
      by (simp add: loadImageSafely_try_def)
    then have third: "\<forall>e. fst (loadImageSafely_try sharp supabaseClient imageData options w)
                 \<noteq> Rejected e"
      by (simp add: pipeInto_not_rejected)
    have fourth: "\<forall>evs w0 e. fst (pipeInto evs w0) \<noteq> Rejected e"
      by (simp add: pipeInto_not_rejected)
    show ?thesis by (intro conjI first second third fourth)
  qed
qed

lemma icon_broken_stream:
  "loadImageSafely brokenSharp scenarioClient iconRequest thumbnailFallbackOptions freshWorld
     = (Pending,
        \<lparr>downloads = [(''imgs'', ''icon.gif'')],
         apiRes = [WriteHead 200
                     [(''Content-Type'', HStr ''image/jpg''),
                      (''Cache-control'', HStr ''max-age=432000'')],
                   PipeWrite [255, 216]],
         reported = [], uncaught = [Error ''VipsJpeg: write error'']\<rparr>)"
proof -
  have b: "bucket iconRequest \<noteq> []" by (simp add: iconRequest_def)
  have g: "getStreamableImage brokenSharp scenarioClient iconRequest thumbnailFallbackOptions
             freshWorld
     = (Inr \<lparr>input = scenarioIcon, ops = [Jpeg 60 (Some True)]\<rparr>,
        freshWorld\<lparr>downloads := [(''imgs'', ''icon.gif'')]\<rparr>)"
    by (simp add: getStreamableImage_def loadImageFromSupabase_def Let_def iconRequest_def
        type_icon scenarioClient_def brokenSharp_def brokenMetadata_def scenarioRejects_def
        scenarioIcon_def thumbnailOptions_def thumbnailFallbackOptions_def hundredKbs_def
        oneKbInBytes_def truthy_def freshWorld_def call_def andThen_def)
  have t: "standardCacheTime thumbnailFallbackOptions = Some STANDARD_CACHE_TIME"
    by (simp add: thumbnailOptions_def thumbnailFallbackOptions_def)
  show ?thesis
    unfolding loadImageSafely_streams[OF b g]
    by (simp add: t stringPlusNumber_def cache_time_string brokenSharp_def brokenEmits_def
          freshWorld_def)
qed

theorem no_error_response_after_success_head_witness:
  "apiRes (snd (loadImageSafely brokenSharp scenarioClient iconRequest thumbnailFallbackOptions
                  freshWorld))
     = apiRes freshWorld
       @ [WriteHead 200
            [(''Content-Type'', HStr ''image/jpg''),
             (''Cache-control'', HStr ''max-age=432000'')],
          PipeWrite [255, 216]]
   \<and> WriteHead 200
        [(''Content-Type'', HStr ''image/jpg''), (''Cache-control'', HStr ''max-age=432000'')]
      \<in> set [WriteHead 200
                [(''Content-Type'', HStr ''image/jpg''),
                 (''Cache-control'', HStr ''max-age=432000'')],
              PipeWrite [255, 216]]
   \<and> list_all streamCall [PipeWrite [255, 216]]
   \<and> reported (snd (loadImageSafely brokenSharp scenarioClient iconRequest
                      thumbnailFallbackOptions freshWorld)) = reported freshWorld
   \<and> fst (loadImageSafely brokenSharp scenarioClient iconRequest thumbnailFallbackOptions
            freshWorld) = Pending"
proof -
  have h1: "apiRes (snd (loadImageSafely brokenSharp scenarioClient iconRequest
                           thumbnailFallbackOptions freshWorld))
     = apiRes freshWorld
       @ [WriteHead 200
            [(''Content-Type'', HStr ''image/jpg''),
             (''Cache-control'', HStr ''max-age=432000'')],
          PipeWrite [255, 216]]"
    unfolding icon_broken_stream by (simp add: freshWorld_def)
  have h2: "WriteHead 200
        [(''Content-Type'', HStr ''image/jpg''), (''Cache-control'', HStr ''max-age=432000'')]
      \<in> set [WriteHead 200
                [(''Content-Type'', HStr ''image/jpg''),
                 (''Cache-control'', HStr ''max-age=432000'')],
              PipeWrite [255, 216]]"
    by simp
  note r = no_error_response_after_success_head[OF h1 h2]
  from r[THEN conjunct1] have l: "list_all streamCall [PipeWrite [255, 216]]" by simp
  note k = r[THEN conjunct2, THEN conjunct1]
  have f: "fst (loadImageSafely brokenSharp scenarioClient iconRequest thumbnailFallbackOptions
            freshWorld) = Pending"
    by (simp add: icon_broken_stream)
  show ?thesis by (intro conjI h1 h2 l k f)
qed

end
